theory Spec2Isabelle
  imports Complex_Main "HOL-Library.Word" "HOL-Library.Signed_Division"
begin

unbundle bit_operations_syntax

section \<open>Conventions\<close>

text \<open>
  Go's \<^verbatim>\<open>int\<close> (on a 64-bit platform) and \<^verbatim>\<open>int64\<close> are 64-bit words: \<open>+\<close>, \<open>-\<close> and
  \<open>*\<close> wrap around, \<open>sint\<close> reads the two's-complement value, \<open><s\<close> is the signed
  order. Go strings are byte sequences, which is what \<open>string\<close> is. A run-time panic is
  a value of type \<open>error\<close>; a function that may loop forever returns an \<open>option\<close> with
  \<open>None\<close> for "never returns". The wall clock (\<^verbatim>\<open>time.Now().Unix()\<close>), the JSON encoder
  and the file system are inputs of the functions that consult them.
\<close>

type_synonym go_int = "64 word"
type_synonym int64 = "64 word"
type_synonym addr = nat

datatype error =
    IndexOutOfRange
  | SliceBoundsOutOfRange
  | NegativeRepeatCount
  | NilDereference
  | MarshalFailed
  | WriteFailed
  | InsufficientFunds

section \<open>SHA-256 and hexadecimal encoding (crypto/sha256, encoding/hex)\<close>

text \<open>
  FIPS 180-4, on 32-bit quantities kept as naturals below \<open>2^32\<close>.
\<close>

definition add32 :: "nat \<Rightarrow> nat \<Rightarrow> nat" where
  "add32 a b = (a + b) mod 4294967296"

definition rotr :: "nat \<Rightarrow> nat \<Rightarrow> nat" where
  "rotr n x = x div 2 ^ n + (x mod 2 ^ n) * 2 ^ (32 - n)"

definition shr :: "nat \<Rightarrow> nat \<Rightarrow> nat" where
  "shr n x = x div 2 ^ n"

definition Ch :: "nat \<Rightarrow> nat \<Rightarrow> nat \<Rightarrow> nat" where
  "Ch x y z = (x AND y) XOR ((4294967295 - x) AND z)"

definition Maj :: "nat \<Rightarrow> nat \<Rightarrow> nat \<Rightarrow> nat" where
  "Maj a b c = (a AND b) XOR (a AND c) XOR (b AND c)"

definition bsig0 :: "nat \<Rightarrow> nat" where
  "bsig0 x = rotr 2 x XOR rotr 13 x XOR rotr 22 x"

definition bsig1 :: "nat \<Rightarrow> nat" where
  "bsig1 x = rotr 6 x XOR rotr 11 x XOR rotr 25 x"

definition ssig0 :: "nat \<Rightarrow> nat" where
  "ssig0 x = rotr 7 x XOR rotr 18 x XOR shr 3 x"

definition ssig1 :: "nat \<Rightarrow> nat" where
  "ssig1 x = rotr 17 x XOR rotr 19 x XOR shr 10 x"

definition K256 :: "nat list" where
  "K256 = [
  1116352408, 1899447441, 3049323471, 3921009573, 961987163, 1508970993, 2453635748, 2870763221,
  3624381080, 310598401, 607225278, 1426881987, 1925078388, 2162078206, 2614888103, 3248222580,
  3835390401, 4022224774, 264347078, 604807628, 770255983, 1249150122, 1555081692, 1996064986,
  2554220882, 2821834349, 2952996808, 3210313671, 3336571891, 3584528711, 113926993, 338241895,
  666307205, 773529912, 1294757372, 1396182291, 1695183700, 1986661051, 2177026350, 2456956037,
  2730485921, 2820302411, 3259730800, 3345764771, 3516065817, 3600352804, 4094571909, 275423344,
  430227734, 506948616, 659060556, 883997877, 958139571, 1322822218, 1537002063, 1747873779,
  1955562222, 2024104815, 2227730452, 2361852424, 2428436474, 2756734187, 3204031479, 3329325298]"

definition H0 :: "nat list" where
  "H0 = [1779033703, 3144134277, 1013904242, 2773480762,
         1359893119, 2600822924, 528734635, 1541459225]"

text \<open>The message schedule is grown newest word first.\<close>

definition sched_word :: "nat list \<Rightarrow> nat" where
  "sched_word ws = (ssig1 (ws ! 1) + ws ! 6 + ssig0 (ws ! 14) + ws ! 15) mod 4294967296"

fun schedule :: "nat \<Rightarrow> nat list \<Rightarrow> nat list" where
  "schedule 0 ws = ws"
| "schedule (Suc n) ws = schedule n (sched_word ws # ws)"

definition shuffle :: "nat \<Rightarrow> nat \<Rightarrow> nat list \<Rightarrow> nat list" where
  "shuffle t1 t2 st =
     [add32 t1 t2, st ! 0, st ! 1, st ! 2, add32 (st ! 3) t1, st ! 4, st ! 5, st ! 6]"

definition round_step :: "nat \<Rightarrow> nat \<Rightarrow> nat list \<Rightarrow> nat list" where
  "round_step k w st =
     shuffle ((st ! 7 + bsig1 (st ! 4) + Ch (st ! 4) (st ! 5) (st ! 6) + k + w) mod 4294967296)
             (add32 (bsig0 (st ! 0)) (Maj (st ! 0) (st ! 1) (st ! 2))) st"

fun rounds :: "nat list \<Rightarrow> nat list \<Rightarrow> nat list \<Rightarrow> nat list" where
  "rounds (k # ks) (w # ws) st = rounds ks ws (round_step k w st)"
| "rounds _ _ st = st"

definition compress :: "nat list \<Rightarrow> nat list \<Rightarrow> nat list" where
  "compress hs blk = map2 add32 hs (rounds K256 (rev (schedule 48 (rev blk))) hs)"

fun be32 :: "nat list \<Rightarrow> nat list" where
  "be32 (a # b # c # d # rest) = (((a * 256 + b) * 256 + c) * 256 + d) # be32 rest"
| "be32 _ = []"

fun chunks :: "nat \<Rightarrow> nat list \<Rightarrow> nat list list" where
  "chunks 0 xs = []"
| "chunks (Suc n) xs = take 16 xs # chunks n (drop 16 xs)"

fun len :: "'a list \<Rightarrow> nat" where
  "len [] = 0"
| "len (x # xs) = len xs + 1"

fun zeros :: "nat \<Rightarrow> nat list" where
  "zeros 0 = []"
| "zeros (Suc n) = 0 # zeros n"

definition be64 :: "nat \<Rightarrow> nat list" where
  "be64 n = map (\<lambda>i. (n div 256 ^ i) mod 256) [7, 6, 5, 4, 3, 2, 1, 0]"

definition pad :: "nat list \<Rightarrow> nat list" where
  "pad m = m @ [128] @ zeros ((119 - len m mod 64) mod 64) @ be64 ((8 * len m) mod 2 ^ 64)"

definition sha256 :: "nat list \<Rightarrow> nat list" where
  "sha256 m = foldl compress H0 (chunks (len (pad m) div 64) (be32 (pad m)))"

definition hexdigit :: "nat \<Rightarrow> char" where
  "hexdigit n = ''0123456789abcdef'' ! n"

definition hex32 :: "nat \<Rightarrow> string" where
  "hex32 w = map (\<lambda>i. hexdigit ((w div 16 ^ i) mod 16)) [7, 6, 5, 4, 3, 2, 1, 0]"

text \<open>\<^verbatim>\<open>hex.EncodeToString(sha256.Sum256([]byte(s)))\<close>\<close>

definition sha256_hex :: "string \<Rightarrow> string" where
  "sha256_hex s = concat (map hex32 (sha256 (map of_char s)))"

section \<open>fmt.Sprintf verbs\<close>

definition digit_char :: "nat \<Rightarrow> char" where
  "digit_char n = ''0123456789'' ! n"

fun digits :: "nat \<Rightarrow> string" where
  "digits n = (if n < 10 then [digit_char n] else digits (n div 10) @ [digit_char (n mod 10)])"

declare digits.simps [simp del]

text \<open>\<^verbatim>\<open>%d\<close> of a signed integer.\<close>

definition fmt_d :: "int \<Rightarrow> string" where
  "fmt_d i = (if i < 0 then CHR ''-'' # digits (nat (- i)) else digits (nat i))"

text \<open>\<^verbatim>\<open>%v\<close> of a \<^verbatim>\<open>[]string\<close>: the elements separated by one space, in brackets.\<close>

fun join_sp :: "string list \<Rightarrow> string" where
  "join_sp [] = []"
| "join_sp [s] = s"
| "join_sp (s # t # ts) = s @ '' '' @ join_sp (t # ts)"

definition fmt_v_strings :: "string list \<Rightarrow> string" where
  "fmt_v_strings xs = ''['' @ join_sp xs @ '']''"

text \<open>
  An operand left over once the format string is used up is reported at the end of the
  output as \<^verbatim>\<open>%!(EXTRA type=value)\<close>.
\<close>

definition fmt_extra_string :: "string \<Rightarrow> string" where
  "fmt_extra_string s = ''%!(EXTRA string='' @ s @ '')''"

section \<open>float64\<close>

text \<open>
  A finite float64 is \<open>F64 m e\<close>, the number \<open>m * 2^e\<close> with \<open>\<bar>m\<bar> < 2^53\<close> and
  \<open>- 1074 \<le> e\<close>; the two zeros are not told apart. Every arithmetic operation computes
  the exact result and rounds it to the nearest representable value, ties to the even
  mantissa, overflowing to an infinity (IEEE 754 binary64, the default rounding mode).
\<close>

datatype float64 = F64 int int | F64Inf bool | F64NaN

fun bit_length :: "nat \<Rightarrow> nat" where
  "bit_length n = (if n = 0 then 0 else bit_length (n div 2) + 1)"

declare bit_length.simps [simp del]

text \<open>Drop the \<open>k\<close> low bits of \<open>a\<close>, rounding to nearest, ties to even.\<close>

definition round_shift :: "nat \<Rightarrow> nat \<Rightarrow> nat" where
  "round_shift a k =
     (if 2 ^ k < 2 * (a mod 2 ^ k) \<or> (2 * (a mod 2 ^ k) = 2 ^ k \<and> odd (a div 2 ^ k))
      then a div 2 ^ k + 1 else a div 2 ^ k)"

definition f64_pack :: "bool \<Rightarrow> nat \<Rightarrow> int \<Rightarrow> float64" where
  "f64_pack neg q e =
     (if q = 0 then F64 0 0
      else if 1024 < int (bit_length q) + e then F64Inf neg
      else F64 (if neg then - int q else int q) e)"

definition f64_drop :: "nat \<Rightarrow> int \<Rightarrow> int" where
  "f64_drop a e = max (int (bit_length a) - 53) (- 1074 - e)"

definition f64_round :: "int \<Rightarrow> int \<Rightarrow> float64" where
  "f64_round m e =
     (if f64_drop (nat \<bar>m\<bar>) e \<le> 0 then f64_pack (m < 0) (nat \<bar>m\<bar>) e
      else f64_pack (m < 0) (round_shift (nat \<bar>m\<bar>) (nat (f64_drop (nat \<bar>m\<bar>) e)))
                    (e + f64_drop (nat \<bar>m\<bar>) e))"

text \<open>\<^verbatim>\<open>float64(n)\<close> for an integer \<open>n\<close>.\<close>

definition f64_of_int :: "int64 \<Rightarrow> float64" where
  "f64_of_int n = f64_round (sint n) 0"

fun f64_mul :: "float64 \<Rightarrow> float64 \<Rightarrow> float64" where
  "f64_mul (F64 m1 e1) (F64 m2 e2) = f64_round (m1 * m2) (e1 + e2)"
| "f64_mul (F64 m e) (F64Inf s) = (if m = 0 then F64NaN else F64Inf (s \<noteq> (m < 0)))"
| "f64_mul (F64Inf s) (F64 m e) = (if m = 0 then F64NaN else F64Inf (s \<noteq> (m < 0)))"
| "f64_mul (F64Inf s) (F64Inf t) = F64Inf (s \<noteq> t)"
| "f64_mul F64NaN _ = F64NaN"
| "f64_mul _ F64NaN = F64NaN"

fun f64_add :: "float64 \<Rightarrow> float64 \<Rightarrow> float64" where
  "f64_add (F64 m1 e1) (F64 m2 e2) =
     f64_round (m1 * 2 ^ nat (e1 - min e1 e2) + m2 * 2 ^ nat (e2 - min e1 e2)) (min e1 e2)"
| "f64_add (F64 m e) (F64Inf s) = F64Inf s"
| "f64_add (F64Inf s) (F64 m e) = F64Inf s"
| "f64_add (F64Inf s) (F64Inf t) = (if s = t then F64Inf s else F64NaN)"
| "f64_add F64NaN _ = F64NaN"
| "f64_add _ F64NaN = F64NaN"

fun f64_neg :: "float64 \<Rightarrow> float64" where
  "f64_neg (F64 m e) = F64 (- m) e"
| "f64_neg (F64Inf s) = F64Inf (\<not> s)"
| "f64_neg F64NaN = F64NaN"

definition f64_sub :: "float64 \<Rightarrow> float64 \<Rightarrow> float64" where
  "f64_sub x y = f64_add x (f64_neg y)"

text \<open>The comparison \<^verbatim>\<open>x < y\<close>; it is false as soon as an operand is NaN.\<close>

fun f64_lt :: "float64 \<Rightarrow> float64 \<Rightarrow> bool" where
  "f64_lt (F64 m1 e1) (F64 m2 e2) =
     (m1 * 2 ^ nat (e1 - min e1 e2) < m2 * 2 ^ nat (e2 - min e1 e2))"
| "f64_lt (F64 m e) (F64Inf s) = (\<not> s)"
| "f64_lt (F64Inf s) (F64 m e) = s"
| "f64_lt (F64Inf s) (F64Inf t) = (s \<and> \<not> t)"
| "f64_lt F64NaN _ = False"
| "f64_lt _ F64NaN = False"

text \<open>
  \<^verbatim>\<open>int(x)\<close> truncates towards zero. Where the value does not fit (or is not a number)
  the language leaves the result to the implementation; amd64 yields the least int64.
\<close>

definition trunc_dyadic :: "int \<Rightarrow> int \<Rightarrow> int" where
  "trunc_dyadic m e = (if 0 \<le> e then m * 2 ^ nat e else sgn m * (\<bar>m\<bar> div 2 ^ nat (- e)))"

fun f64_to_int :: "float64 \<Rightarrow> go_int" where
  "f64_to_int (F64 m e) =
     (if - (2 ^ 63) \<le> trunc_dyadic m e \<and> trunc_dyadic m e < 2 ^ 63
      then word_of_int (trunc_dyadic m e) else 0x8000000000000000)"
| "f64_to_int _ = 0x8000000000000000"

text \<open>The rational number a finite float64 stands for.\<close>

fun f64_val :: "float64 \<Rightarrow> rat" where
  "f64_val (F64 m e) = of_int m * 2 powi e"
| "f64_val _ = 0"

fun f64_finite :: "float64 \<Rightarrow> bool" where
  "f64_finite (F64 m e) = True"
| "f64_finite _ = False"

section \<open>Transactions (transaction.go)\<close>

typedecl json_value

record Transaction =
  Sender :: string
  Recipient :: string
  Amount :: float64
  TxTimestamp :: int64
  ContractName :: string
  Method :: string
  Params :: "(string \<times> json_value) list"
  Signature :: string
  TxNonce :: go_int

definition NewTransaction :: "int64 \<Rightarrow> string \<Rightarrow> string \<Rightarrow> float64 \<Rightarrow> go_int \<Rightarrow> Transaction" where
  "NewTransaction now sender recipient amount nonce =
     \<lparr>Sender = sender, Recipient = recipient, Amount = amount, TxTimestamp = now,
      ContractName = [], Method = [], Params = [], Signature = [], TxNonce = nonce\<rparr>"

section \<open>Blocks (blockchain.go)\<close>

text \<open>
  The sub-blocks of a block are pointers; the objects they point to live in a store
  (see \<open>UpdateBlockWithSubBlockEx\<close> below).
\<close>

record Block =
  Index :: go_int
  Timestamp :: int64
  PrevHash :: string
  Hash :: string
  Nonce :: go_int
  RelationshipType :: string
  Receivers :: "string list"
  TextData :: string
  AudioData :: string
  VideoData :: string
  Transactions :: "Transaction list"
  SubBlocks :: "addr list"
  Difficulty :: go_int
  Category :: string

definition serializeReceivers :: "string list \<Rightarrow> string" where
  "serializeReceivers receivers = fmt_v_strings receivers"

text \<open>
  The string that is hashed. The format has ten verbs for eleven operands, so the
  category comes last, in the \<^verbatim>\<open>%!(EXTRA ...)\<close> form.
\<close>

definition hash_record :: "Block \<Rightarrow> string" where
  "hash_record b =
     fmt_d (sint (Index b)) @ fmt_d (sint (Timestamp b)) @ PrevHash b @ RelationshipType b @
     TextData b @ AudioData b @ VideoData b @ serializeReceivers (Receivers b) @
     fmt_d (sint (Difficulty b)) @ fmt_d (sint (Nonce b)) @ fmt_extra_string (Category b)"

definition CalculateHash :: "Block \<Rightarrow> string" where
  "CalculateHash b = sha256_hex (hash_record b)"

definition HasPrefix :: "string \<Rightarrow> string \<Rightarrow> bool" where
  "HasPrefix s p = (take (length p) s = p)"

text \<open>The search loop of \<open>MineBlock\<close>; \<open>None\<close> when no nonce is ever found.\<close>

partial_function (option) mine_loop :: "string \<Rightarrow> Block \<Rightarrow> Block option" where
  "mine_loop target b =
     (if HasPrefix (CalculateHash b) target then Some (b\<lparr>Hash := CalculateHash b\<rparr>)
      else mine_loop target (b\<lparr>Hash := CalculateHash b, Nonce := Nonce b + 1\<rparr>))"

text \<open>\<^verbatim>\<open>strings.Repeat("0", difficulty)\<close>, for a count that is not negative.\<close>

definition target_of :: "go_int \<Rightarrow> string" where
  "target_of difficulty = replicate (nat (sint difficulty)) CHR ''0''"

text \<open>\<^verbatim>\<open>strings.Repeat\<close> panics on a negative count.\<close>

definition MineBlock :: "Block \<Rightarrow> go_int \<Rightarrow> (error + Block) option" where
  "MineBlock b difficulty =
     (if difficulty <s 0 then Some (Inl NegativeRepeatCount)
      else map_option Inr (mine_loop (target_of difficulty) b))"

record TransactionPool =
  PoolTransactions :: "Transaction list"

text \<open>
  \<open>CreateBlock\<close> reads the clock twice (for the coinbase transaction and for the block)
  and leaves the coinbase transaction at the head of the pool.
\<close>

definition CreateBlock ::
  "int64 \<Rightarrow> int64 \<Rightarrow> go_int \<Rightarrow> string \<Rightarrow> string \<Rightarrow> string list \<Rightarrow> string \<Rightarrow> string \<Rightarrow> string \<Rightarrow>
   TransactionPool \<Rightarrow> go_int \<Rightarrow> string \<Rightarrow> float64 \<Rightarrow> (error + Block \<times> TransactionPool) option" where
  "CreateBlock now_tx now index prevHash relationshipType receivers text audio video
               txPool difficulty minerAddress reward =
     (let coinbaseTx = NewTransaction now_tx ''COINBASE'' minerAddress reward 0;
          txPool' = txPool\<lparr>PoolTransactions := coinbaseTx # PoolTransactions txPool\<rparr>;
          block = \<lparr>Index = index, Timestamp = now, PrevHash = prevHash, Hash = [], Nonce = 0,
                   RelationshipType = relationshipType, Receivers = receivers,
                   TextData = text, AudioData = audio, VideoData = video,
                   Transactions = PoolTransactions txPool', SubBlocks = [],
                   Difficulty = difficulty, Category = ''main''\<rparr>
      in case MineBlock block difficulty of
           None \<Rightarrow> None
         | Some (Inl e) \<Rightarrow> Some (Inl e)
         | Some (Inr mined) \<Rightarrow> Some (Inr (mined, txPool')))"

section \<open>Pruning and archival (prune.go)\<close>

text \<open>
  What \<open>PruneAndArchive\<close> asks of its environment: the JSON encoder (\<open>None\<close> when it
  fails), the outcome of writing a file, and the clock that names the archive.
\<close>

record archive_io =
  marshal :: "Block list \<Rightarrow> string option"
  write_file :: "string \<Rightarrow> string \<Rightarrow> bool"
  clock :: int64

text \<open>
  The outcome: the error returned (if any), the in-memory chain afterwards, and the
  file written (name and contents).
\<close>

record prune_result =
  returned :: "error option"
  blocks_after :: "Block list"
  written :: "(string \<times> string) option"

definition archive_name :: "archive_io \<Rightarrow> string \<Rightarrow> string" where
  "archive_name io archiveFilename = archiveFilename @ ''_'' @ fmt_d (sint (clock io)) @ ''.json''"

text \<open>
  With a negative \<open>retainCount\<close> the slice expressions are out of bounds and the call
  panics (at the first of them or, where the slice has spare capacity, at the second,
  after the archive has been written; the model stops at the first).
\<close>

definition PruneAndArchive :: "archive_io \<Rightarrow> Block list \<Rightarrow> go_int \<Rightarrow> string \<Rightarrow> error + prune_result" where
  "PruneAndArchive io blocks retainCount archiveFilename =
     (if int (length blocks) \<le> sint retainCount
      then Inr \<lparr>returned = None, blocks_after = blocks, written = None\<rparr>
      else if sint retainCount < 0 then Inl SliceBoundsOutOfRange
      else (case marshal io (take (length blocks - nat (sint retainCount)) blocks) of
              None \<Rightarrow> Inr \<lparr>returned = Some MarshalFailed, blocks_after = blocks, written = None\<rparr>
            | Some archiveData \<Rightarrow>
                if \<not> write_file io (archive_name io archiveFilename) archiveData
                then Inr \<lparr>returned = Some WriteFailed, blocks_after = blocks, written = None\<rparr>
                else Inr \<lparr>returned = None,
                          blocks_after = drop (length blocks - nat (sint retainCount)) blocks,
                          written = Some (archive_name io archiveFilename, archiveData)\<rparr>))"

text \<open>\<open>AddBlock\<close> appends and, past 100 blocks, prunes to 50; a pruning error is only logged.\<close>

definition AddBlock :: "archive_io \<Rightarrow> Block list \<Rightarrow> Block \<Rightarrow> error + prune_result" where
  "AddBlock io blocks b =
     (if 100 < length (blocks @ [b]) then PruneAndArchive io (blocks @ [b]) 50 ''archive''
      else Inr \<lparr>returned = None, blocks_after = blocks @ [b], written = None\<rparr>)"

section \<open>Validation and fork choice (blockchain.go)\<close>

definition CumulativeDifficulty :: "Block list \<Rightarrow> go_int" where
  "CumulativeDifficulty chain = foldl (\<lambda>total b. total + Difficulty b) 0 chain"

text \<open>The loop of \<open>IsValidChain\<close> over the blocks after the first, each with its predecessor.\<close>

fun valid_from :: "Block \<Rightarrow> Block list \<Rightarrow> bool" where
  "valid_from previous [] = True"
| "valid_from previous (current # rest) =
     (if PrevHash current \<noteq> Hash previous then False
      else if Hash current \<noteq> CalculateHash current then False
      else valid_from current rest)"

fun IsValidChain :: "Block list \<Rightarrow> bool" where
  "IsValidChain [] = False"
| "IsValidChain (first # rest) =
     (if PrevHash first \<noteq> [] \<or> Hash first \<noteq> CalculateHash first then False
      else valid_from first rest)"

text \<open>
  The three functions take slices of pointers. A chain decoded from a peer's JSON may
  hold nil among them, and so may, by its type, the chain a node holds. In what follows
  a pointer is a \<open>Block option\<close>, with \<open>None\<close> for nil, and reading a field through nil is
  the panic \<open>NilDereference\<close>. \<open>CumulativeDifficulty_ptr\<close> and \<open>IsValidChain_ptr\<close> are
  \<open>CumulativeDifficulty\<close> and \<open>IsValidChain\<close> on such slices: each element is read when the
  loop reaches it, so a nil behind the first failed check of \<open>IsValidChain\<close> is never
  reached.
\<close>

type_synonym block_ptr = "Block option"

fun sum_difficulty :: "go_int \<Rightarrow> block_ptr list \<Rightarrow> error + go_int" where
  "sum_difficulty running [] = Inr running"
| "sum_difficulty running (None # rest) = Inl NilDereference"
| "sum_difficulty running (Some b # rest) = sum_difficulty (running + Difficulty b) rest"

definition CumulativeDifficulty_ptr :: "block_ptr list \<Rightarrow> error + go_int" where
  "CumulativeDifficulty_ptr chain = sum_difficulty 0 chain"

fun valid_from_ptr :: "Block \<Rightarrow> block_ptr list \<Rightarrow> error + bool" where
  "valid_from_ptr previous [] = Inr True"
| "valid_from_ptr previous (None # rest) = Inl NilDereference"
| "valid_from_ptr previous (Some current # rest) =
     (if PrevHash current \<noteq> Hash previous then Inr False
      else if Hash current \<noteq> CalculateHash current then Inr False
      else valid_from_ptr current rest)"

fun IsValidChain_ptr :: "block_ptr list \<Rightarrow> error + bool" where
  "IsValidChain_ptr [] = Inr False"
| "IsValidChain_ptr (None # rest) = Inl NilDereference"
| "IsValidChain_ptr (Some first # rest) =
     (if PrevHash first \<noteq> [] \<or> Hash first \<noteq> CalculateHash first then Inr False
      else valid_from_ptr first rest)"

text \<open>
  \<open>ReplaceChain\<close> returns its verdict and the chain the receiver holds afterwards, or
  panics. The candidate's cumulative difficulty is computed before the receiver's.
\<close>

definition ReplaceChain ::
  "block_ptr list \<Rightarrow> block_ptr list \<Rightarrow> error + bool \<times> block_ptr list" where
  "ReplaceChain blocks newChain =
     (case IsValidChain_ptr newChain of
        Inl e \<Rightarrow> Inl e
      | Inr valid \<Rightarrow>
          if \<not> valid then Inr (False, blocks)
          else (case CumulativeDifficulty_ptr newChain of
                  Inl e \<Rightarrow> Inl e
                | Inr candidate \<Rightarrow>
                    (case CumulativeDifficulty_ptr blocks of
                       Inl e \<Rightarrow> Inl e
                     | Inr held \<Rightarrow>
                         if held <s candidate then Inr (True, newChain)
                         else Inr (False, blocks))))"

text \<open>
  The cumulative difficulty as the specification words it: the sum of the difficulty
  fields, as a number. \<open>wrap_int\<close> is the value that a number has in Go's 64-bit \<open>int\<close>
  after wrap-around, and \<open>fits_int\<close> says that it is the number itself.
\<close>

definition difficulty_sum :: "Block list \<Rightarrow> int" where
  "difficulty_sum chain = sum_list (map (\<lambda>b. sint (Difficulty b)) chain)"

definition wrap_int :: "int \<Rightarrow> int" where
  "wrap_int n = (n + 9223372036854775808) mod 18446744073709551616 - 9223372036854775808"

definition fits_int :: "int \<Rightarrow> bool" where
  "fits_int n \<longleftrightarrow> - 9223372036854775808 \<le> n \<and> n \<le> 9223372036854775807"

section \<open>Building a chain with CreateBlock and AddBlock\<close>

text \<open>
  One round of the node's mining loop (main.go): a block is created on top of the chain
  held so far, with an empty previous-hash when there is none yet and the hash of the
  last block otherwise, and with the number of blocks produced so far as its index; then
  it is added with \<open>AddBlock\<close>. A request carries everything else \<open>CreateBlock\<close> and
  \<open>AddBlock\<close> take from their caller and their environment.
\<close>

record block_request =
  rq_now_tx :: int64
  rq_now :: int64
  rq_relationshipType :: string
  rq_receivers :: "string list"
  rq_text :: string
  rq_audio :: string
  rq_video :: string
  rq_pool :: TransactionPool
  rq_difficulty :: go_int
  rq_miner :: string
  rq_reward :: float64
  rq_io :: archive_io

definition produce_block :: "Block list \<times> nat \<Rightarrow> block_request \<Rightarrow> (error + Block list \<times> nat) option" where
  "produce_block st rq =
     (case CreateBlock (rq_now_tx rq) (rq_now rq) (word_of_nat (snd st))
             (if fst st = [] then [] else Hash (last (fst st)))
             (rq_relationshipType rq) (rq_receivers rq) (rq_text rq) (rq_audio rq) (rq_video rq)
             (rq_pool rq) (rq_difficulty rq) (rq_miner rq) (rq_reward rq) of
        None \<Rightarrow> None
      | Some (Inl e) \<Rightarrow> Some (Inl e)
      | Some (Inr (b, pool)) \<Rightarrow>
          (case AddBlock (rq_io rq) (fst st) b of
             Inl e \<Rightarrow> Some (Inl e)
           | Inr r \<Rightarrow> Some (Inr (blocks_after r, Suc (snd st)))))"

fun build :: "Block list \<times> nat \<Rightarrow> block_request list \<Rightarrow> (error + Block list \<times> nat) option" where
  "build st [] = Some (Inr st)"
| "build st (rq # rqs) =
     (case produce_block st rq of
        Some (Inr st') \<Rightarrow> build st' rqs
      | other \<Rightarrow> other)"

text \<open>The chain that a run of requests leaves, started from nothing.\<close>

definition built_chain :: "block_request list \<Rightarrow> Block list option" where
  "built_chain rqs =
     (case build ([], 0) rqs of Some (Inr st) \<Rightarrow> Some (fst st) | _ \<Rightarrow> None)"

text \<open>
  What \<open>IsValidChain\<close> asks of a chain apart from the empty previous-hash of its first
  block.
\<close>

definition linked :: "Block list \<Rightarrow> bool" where
  "linked chain =
     (case chain of [] \<Rightarrow> False
      | first # rest \<Rightarrow> Hash first = CalculateHash first \<and> valid_from first rest)"

text \<open>
  What holds of the chain and the count of blocks produced after every round: nothing
  yet; or a linked chain in which every block but the first has a previous-hash; and, as
  long as no more than 100 blocks were produced, all of them are there and the first one
  has the empty previous-hash.
\<close>

definition build_inv :: "Block list \<times> nat \<Rightarrow> bool" where
  "build_inv st =
     ((snd st = 0 \<longrightarrow> fst st = [])
      \<and> (0 < snd st \<longrightarrow> linked (fst st) \<and> (\<forall>b \<in> set (tl (fst st)). PrevHash b \<noteq> []))
      \<and> (snd st \<le> 100 \<longrightarrow>
           length (fst st) = snd st \<and> (fst st \<noteq> [] \<longrightarrow> PrevHash (hd (fst st)) = [])))"

section \<open>Sub-blocks (blockchain.go)\<close>

text \<open>
  \<open>UpdateBlockWithSubBlockEx\<close> writes through a pointer, so here the objects are in a
  store: a heap is the list of allocated blocks, an address is a position in it, and
  allocation appends. The chain is the list of addresses in \<open>Blocks\<close>, and the sub-blocks
  of a block are addresses too. An address outside the heap stands for a nil pointer.
  The functions above, which only read blocks and move pointers around, see the chain as
  the list \<open>chain_of\<close> of the blocks pointed to.
\<close>

type_synonym heap = "Block list"

record Blockchain =
  Blocks :: "addr list"

definition chain_of :: "heap \<Rightarrow> Blockchain \<Rightarrow> Block list" where
  "chain_of h bc = map (\<lambda>a. h ! a) (Blocks bc)"

datatype update_status = InvalidParentIndex | SubBlockAppended

definition sub_block_shell :: "int64 \<Rightarrow> Block \<Rightarrow> string \<Rightarrow> string \<Rightarrow> string \<Rightarrow> string \<Rightarrow> Block" where
  "sub_block_shell now parentBlock newText newAudio newVideo subBlockCategory =
     \<lparr>Index = Index parentBlock, Timestamp = now, PrevHash = Hash parentBlock, Hash = [],
      Nonce = 0, RelationshipType = RelationshipType parentBlock,
      Receivers = Receivers parentBlock,
      TextData = newText, AudioData = newAudio, VideoData = newVideo,
      Transactions = [], SubBlocks = [], Difficulty = 1, Category = subBlockCategory\<rparr>"

text \<open>
  The result is \<open>None\<close> when the mining of the sub-block never ends; otherwise a panic, or
  what was done together with the heap afterwards. The receiver's \<open>Blocks\<close> is not
  assigned to.
\<close>

definition UpdateBlockWithSubBlockEx ::
  "int64 \<Rightarrow> heap \<Rightarrow> Blockchain \<Rightarrow> go_int \<Rightarrow> string \<Rightarrow> string \<Rightarrow> string \<Rightarrow> string \<Rightarrow>
   (error + update_status \<times> heap) option" where
  "UpdateBlockWithSubBlockEx now h bc parentIndex newText newAudio newVideo subBlockCategory =
     (if sint parentIndex < 0 \<or> int (length (Blocks bc)) \<le> sint parentIndex
      then Some (Inr (InvalidParentIndex, h))
      else if length h \<le> Blocks bc ! nat (sint parentIndex) then Some (Inl NilDereference)
      else (case MineBlock (sub_block_shell now (h ! (Blocks bc ! nat (sint parentIndex)))
                              newText newAudio newVideo subBlockCategory) 1 of
              None \<Rightarrow> None
            | Some (Inl e) \<Rightarrow> Some (Inl e)
            | Some (Inr mined) \<Rightarrow>
                Some (Inr (SubBlockAppended,
                  (h @ [mined\<lparr>Hash := CalculateHash mined\<rparr>])
                    [Blocks bc ! nat (sint parentIndex) :=
                       (h ! (Blocks bc ! nat (sint parentIndex)))
                         \<lparr>SubBlocks := SubBlocks (h ! (Blocks bc ! nat (sint parentIndex)))
                                        @ [length h]\<rparr>]))))"

text \<open>\<open>UpdateBlockWithSubBlock\<close>, the earlier of the two methods.\<close>

definition UpdateBlockWithSubBlock ::
  "int64 \<Rightarrow> heap \<Rightarrow> Blockchain \<Rightarrow> go_int \<Rightarrow> string \<Rightarrow> string \<Rightarrow> string \<Rightarrow> string \<Rightarrow>
   (error + update_status \<times> heap) option" where
  "UpdateBlockWithSubBlock now h bc parentIndex newText newAudio newVideo subBlockCategory =
     (if sint parentIndex < 0 \<or> int (length (Blocks bc)) \<le> sint parentIndex
      then Some (Inr (InvalidParentIndex, h))
      else if length h \<le> Blocks bc ! nat (sint parentIndex) then Some (Inl NilDereference)
      else (case MineBlock (sub_block_shell now (h ! (Blocks bc ! nat (sint parentIndex)))
                              newText newAudio newVideo subBlockCategory) 1 of
              None \<Rightarrow> None
            | Some (Inl e) \<Rightarrow> Some (Inl e)
            | Some (Inr mined) \<Rightarrow>
                Some (Inr (SubBlockAppended,
                  (h @ [mined\<lparr>Hash := CalculateHash mined\<rparr>])
                    [Blocks bc ! nat (sint parentIndex) :=
                       (h ! (Blocks bc ! nat (sint parentIndex)))
                         \<lparr>SubBlocks := SubBlocks (h ! (Blocks bc ! nat (sint parentIndex)))
                                        @ [length h]\<rparr>]))))"

section \<open>Difficulty adjustment (difficulty.go)\<close>

text \<open>
  A \<^verbatim>\<open>time.Duration\<close> is an int64 count of nanoseconds; \<open>/\<close> on signed integers
  truncates towards zero.
\<close>

definition go_quot :: "int64 \<Rightarrow> int64 \<Rightarrow> int64" where
  "go_quot a b = word_of_int (sint a sdiv sint b)"

definition Second :: int64 where
  "Second = 1000000000"

text \<open>
  Indexing a slice outside \<open>0 \<le> i < len\<close> panics. The index \<open>n - adjustmentInterval\<close>
  is written on the integers: the length of a slice is a non-negative int, so where the
  subtraction would wrap around in Go the wrapped value is negative and the exact one is
  at least \<open>n\<close>, and both are out of range.
\<close>

definition AdjustDifficulty :: "Block list \<Rightarrow> int64 \<Rightarrow> go_int \<Rightarrow> error + go_int" where
  "AdjustDifficulty chain targetTimePerBlock adjustmentInterval =
     (if int (length chain) < sint adjustmentInterval
      then (if chain = [] then Inl IndexOutOfRange else Inr (Difficulty (last chain)))
      else if int (length chain) - sint adjustmentInterval < 0
              \<or> int (length chain) \<le> int (length chain) - sint adjustmentInterval
      then Inl IndexOutOfRange
      else (let start = chain ! nat (int (length chain) - sint adjustmentInterval);
                end = last chain;
                actualTime = (Timestamp end - Timestamp start) * Second;
                expectedTime = targetTimePerBlock * adjustmentInterval;
                currentDifficulty = Difficulty (last chain)
            in if actualTime <s go_quot expectedTime 2 then Inr (currentDifficulty + 1)
               else if expectedTime * 2 <s actualTime
               then (if 1 <s currentDifficulty then Inr (currentDifficulty - 1)
                     else Inr currentDifficulty)
               else Inr currentDifficulty))"

section \<open>Receiving a block from a peer (p2p.go)\<close>

text \<open>
  What \<^verbatim>\<open>json.Unmarshal\<close> into a \<^verbatim>\<open>*Block\<close> can produce: an error, a nil pointer (the
  payload \<^verbatim>\<open>null\<close>) or a block. \<open>handleNewBlock\<close> returns the chain held afterwards and
  whether \<open>BroadcastChainUpdate\<close> was called. The block is appended directly, not through
  \<open>AddBlock\<close>.
\<close>

datatype 'a decoded = DecodeError | DecodedNull | Decoded 'a

fun handleNewBlock :: "Block list \<Rightarrow> Block decoded \<Rightarrow> error + Block list \<times> bool" where
  "handleNewBlock blocks DecodeError = Inr (blocks, False)"
| "handleNewBlock [] _ = Inl IndexOutOfRange"
| "handleNewBlock blocks DecodedNull = Inl NilDereference"
| "handleNewBlock blocks (Decoded newBlock) =
     (if PrevHash newBlock = Hash (last blocks) \<and> Hash newBlock = CalculateHash newBlock
      then Inr (blocks @ [newBlock], True)
      else Inr (blocks, False))"

section \<open>Hybrid consensus (consensus.go)\<close>

record CandidateBlock =
  BlockOf :: Block
  Work :: go_int
  ValidVotes :: go_int

record HybridConsensusManager =
  CandidateBlocks :: "CandidateBlock list"
  Stakeholders :: "string \<rightharpoonup> float64"
  VoteThreshold :: float64

text \<open>The float64 nearest to 0.67 is \<open>6034823500676465 / 2^53\<close>.\<close>

definition f64_0_67 :: float64 where
  "f64_0_67 = F64 6034823500676465 (- 53)"

definition NewHybridConsensusManager :: HybridConsensusManager where
  "NewHybridConsensusManager =
     \<lparr>CandidateBlocks = [], Stakeholders = Map.empty, VoteThreshold = f64_0_67\<rparr>"

definition ProposeBlock :: "HybridConsensusManager \<Rightarrow> Block \<Rightarrow> HybridConsensusManager" where
  "ProposeBlock hcm b =
     hcm\<lparr>CandidateBlocks := CandidateBlocks hcm @ [\<lparr>BlockOf = b, Work = Nonce b, ValidVotes = 0\<rparr>]\<rparr>"

definition CastVote :: "HybridConsensusManager \<Rightarrow> go_int \<Rightarrow> string \<Rightarrow> bool \<Rightarrow> HybridConsensusManager" where
  "CastVote hcm candidateIndex validator vote =
     (if sint candidateIndex < 0 \<or> int (length (CandidateBlocks hcm)) \<le> sint candidateIndex
      then hcm
      else if vote
      then (case Stakeholders hcm validator of
              None \<Rightarrow> hcm
            | Some stake \<Rightarrow>
                hcm\<lparr>CandidateBlocks :=
                      (CandidateBlocks hcm)
                        [nat (sint candidateIndex) :=
                           (CandidateBlocks hcm ! nat (sint candidateIndex))
                             \<lparr>ValidVotes :=
                                ValidVotes (CandidateBlocks hcm ! nat (sint candidateIndex))
                                  + f64_to_int (f64_mul stake (F64 100 0))\<rparr>]\<rparr>)
      else hcm)"

text \<open>The scan of \<open>FinalizeBlock\<close> over the candidates, in the order they were proposed.\<close>

fun first_reaching :: "go_int \<Rightarrow> CandidateBlock list \<Rightarrow> Block option" where
  "first_reaching threshold [] = None"
| "first_reaching threshold (candidate # rest) =
     (if threshold \<le>s ValidVotes candidate then Some (BlockOf candidate)
      else first_reaching threshold rest)"

definition vote_threshold :: "HybridConsensusManager \<Rightarrow> go_int \<Rightarrow> go_int" where
  "vote_threshold hcm totalStake = f64_to_int (f64_mul (f64_of_int totalStake) (VoteThreshold hcm))"

definition FinalizeBlock :: "HybridConsensusManager \<Rightarrow> go_int \<Rightarrow> Block option" where
  "FinalizeBlock hcm totalStake = first_reaching (vote_threshold hcm totalStake) (CandidateBlocks hcm)"

section \<open>The ledger (ledger.go)\<close>

type_synonym Ledger = "string \<rightharpoonup> float64"

text \<open>Reading a key that the map does not hold gives 0.\<close>

definition balance :: "Ledger \<Rightarrow> string \<Rightarrow> float64" where
  "balance l k = (case l k of None \<Rightarrow> F64 0 0 | Some v \<Rightarrow> v)"

definition ProcessTransaction :: "Ledger \<Rightarrow> Transaction \<Rightarrow> error option \<times> Ledger" where
  "ProcessTransaction l tx =
     (if f64_lt (balance l (Sender tx)) (Amount tx) then (Some InsufficientFunds, l)
      else (None,
            (l(Sender tx \<mapsto> f64_sub (balance l (Sender tx)) (Amount tx)))
              (Recipient tx \<mapsto>
                 f64_add (balance (l(Sender tx \<mapsto> f64_sub (balance l (Sender tx)) (Amount tx)))
                            (Recipient tx))
                         (Amount tx))))"

definition ProcessCoinbaseTransaction :: "Ledger \<Rightarrow> string \<Rightarrow> float64 \<Rightarrow> Ledger" where
  "ProcessCoinbaseTransaction l recipient reward =
     l(recipient \<mapsto> f64_add (balance l recipient) reward)"

text \<open>A run of ledger operations; a rejected transaction leaves the ledger as it is.\<close>

datatype ledger_op = Transfer Transaction | Coinbase string float64

fun apply_op :: "Ledger \<Rightarrow> ledger_op \<Rightarrow> Ledger" where
  "apply_op l (Transfer tx) = snd (ProcessTransaction l tx)"
| "apply_op l (Coinbase recipient reward) = ProcessCoinbaseTransaction l recipient reward"

definition apply_ops :: "Ledger \<Rightarrow> ledger_op list \<Rightarrow> Ledger" where
  "apply_ops l ops = foldl apply_op l ops"

text \<open>The total of the balances, as a number.\<close>

definition ledger_total :: "Ledger \<Rightarrow> rat" where
  "ledger_total l = (\<Sum>k \<in> dom l. f64_val (balance l k))"

fun rewards :: "ledger_op list \<Rightarrow> rat" where
  "rewards [] = 0"
| "rewards (Transfer tx # ops) = rewards ops"
| "rewards (Coinbase recipient reward # ops) = f64_val reward + rewards ops"

text \<open>
  A sum or difference is exact when the operands are finite and the float64 result is the
  sum or difference of the numbers, nothing having been rounded away.
\<close>

definition exact_add :: "float64 \<Rightarrow> float64 \<Rightarrow> bool" where
  "exact_add x y =
     (f64_finite x \<and> f64_finite y \<and> f64_finite (f64_add x y)
      \<and> f64_val (f64_add x y) = f64_val x + f64_val y)"

definition exact_sub :: "float64 \<Rightarrow> float64 \<Rightarrow> bool" where
  "exact_sub x y =
     (f64_finite x \<and> f64_finite y \<and> f64_finite (f64_sub x y)
      \<and> f64_val (f64_sub x y) = f64_val x - f64_val y)"

text \<open>
  A run in which every transfer is accepted and every balance update is exact.
\<close>

fun exact_run :: "Ledger \<Rightarrow> ledger_op list \<Rightarrow> bool" where
  "exact_run l [] = True"
| "exact_run l (Transfer tx # ops) =
     (fst (ProcessTransaction l tx) = None
      \<and> exact_sub (balance l (Sender tx)) (Amount tx)
      \<and> exact_add (balance (l(Sender tx \<mapsto> f64_sub (balance l (Sender tx)) (Amount tx)))
                             (Recipient tx))
                   (Amount tx)
      \<and> exact_run (apply_op l (Transfer tx)) ops)"
| "exact_run l (Coinbase recipient reward # ops) =
     (exact_add (balance l recipient) reward
      \<and> exact_run (apply_op l (Coinbase recipient reward)) ops)"

section \<open>Sample data\<close>

definition io_ok :: archive_io where
  "io_ok = \<lparr>marshal = (\<lambda>bs. Some (concat (map Hash bs))), write_file = (\<lambda>name data. True),
            clock = 1700000000\<rparr>"

definition io_full_disk :: archive_io where
  "io_full_disk = io_ok\<lparr>write_file := (\<lambda>name data. False)\<rparr>"

definition genesis_shell :: Block where
  "genesis_shell =
     \<lparr>Index = 0, Timestamp = 1700000006, PrevHash = [], Hash = [], Nonce = 0,
      RelationshipType = ''one-to-one'', Receivers = [''Bob''],
      TextData = ''Text'', AudioData = [], VideoData = [],
      Transactions = [], SubBlocks = [], Difficulty = 3, Category = ''main''\<rparr>"

definition sealed :: "Block \<Rightarrow> Block" where
  "sealed b = b\<lparr>Hash := CalculateHash b\<rparr>"

definition second_shell :: "go_int \<Rightarrow> Block" where
  "second_shell d =
     genesis_shell\<lparr>Index := 1, PrevHash := Hash (sealed genesis_shell),
                   RelationshipType := ''one-to-many'', Receivers := [''Bob'', ''Carol''],
                   Difficulty := d\<rparr>"

definition stamped :: "int64 \<Rightarrow> go_int \<Rightarrow> Block" where
  "stamped t d = genesis_shell\<lparr>Timestamp := t, Difficulty := d\<rparr>"

text \<open>The number of leading \<^verbatim>\<open>0\<close> characters of a hexadecimal string.\<close>

definition leading_zeros :: "string \<Rightarrow> nat" where
  "leading_zeros s = length (takeWhile (\<lambda>c. c = CHR ''0'') s)"

text \<open>The block as the search loop sees it after \<open>k\<close> increments of the nonce.\<close>

definition bumped :: "Block \<Rightarrow> nat \<Rightarrow> Block" where
  "bumped b k = b\<lparr>Nonce := Nonce b + word_of_nat k\<rparr>"


text \<open>
  A block mined at difficulty 1: the shell stamped 1700000027, after one increment of
  the nonce.
\<close>

definition mined_genesis :: Block where
  "mined_genesis = (stamped 1700000027 1)
     \<lparr>Hash := ''004747202ab473a03a09d50b45066d664b86b45941fd8ca30eb121d25044bf2d'', Nonce := 1\<rparr>"

definition easy_request :: block_request where
  "easy_request =
     \<lparr>rq_now_tx = 1700000000, rq_now = 1700000001, rq_relationshipType = ''one-to-one'',
      rq_receivers = [''Bob''], rq_text = ''Text'', rq_audio = [], rq_video = [],
      rq_pool = \<lparr>PoolTransactions = []\<rparr>, rq_difficulty = 0, rq_miner = ''Miner1'',
      rq_reward = F64 25 (- 1), rq_io = io_ok\<rparr>"

text \<open>The sub-block that the sample heap below receives.\<close>

definition sample_sub_block :: Block where
  "sample_sub_block =
     (sub_block_shell 1700000064 mined_genesis ''New'' [] [] ''text'')
       \<lparr>Hash := ''08b5a638190d1b9375ae67e90de926b1d02061bd631a634df1dac77594b3d804''\<rparr>"

text \<open>The manager of the quorum scenario: stakes 50, 30 and 20, one candidate proposed.\<close>

definition quorum_manager :: HybridConsensusManager where
  "quorum_manager =
     ProposeBlock
       (NewHybridConsensusManager
          \<lparr>Stakeholders := [''A'' \<mapsto> F64 50 0, ''B'' \<mapsto> F64 30 0, ''C'' \<mapsto> F64 20 0]\<rparr>)
       mined_genesis"

text \<open>The ledger of main.go, and one with a balance of \<open>2^53 = 4503599627370496 * 2\<close>.\<close>

definition ledger_main :: Ledger where
  "ledger_main = [''Alice'' \<mapsto> F64 100 0, ''Bob'' \<mapsto> F64 50 0, ''Charlie'' \<mapsto> F64 25 0]"

definition ledger_large :: Ledger where
  "ledger_large = [''Alice'' \<mapsto> F64 1 0, ''Bob'' \<mapsto> F64 4503599627370496 1]"

definition pay :: "string \<Rightarrow> string \<Rightarrow> float64 \<Rightarrow> Transaction" where
  "pay sender recipient amount = NewTransaction 1700000000 sender recipient amount 1"

text \<open>The transfers and the miner's reward of main.go: 10.5, 5.25 and 12.5.\<close>

definition main_ops :: "ledger_op list" where
  "main_ops = [Transfer (pay ''Alice'' ''Bob'' (F64 21 (- 1))),
               Transfer (pay ''Bob'' ''Charlie'' (F64 21 (- 2))),
               Coinbase ''Miner1'' (F64 25 (- 1))]"

section \<open>Basic facts\<close>

lemma hash_record_Hash_update [simp]: "hash_record (b\<lparr>Hash := h\<rparr>) = hash_record b"
  by (simp add: hash_record_def)

lemma CalculateHash_Hash_update [simp]: "CalculateHash (b\<lparr>Hash := h\<rparr>) = CalculateHash b"
  by (simp add: CalculateHash_def)

lemma sealed_self_consistent [simp]: "Hash (sealed b) = CalculateHash (sealed b)"
  by (simp add: sealed_def)

lemma sealed_fields [simp]:
  "PrevHash (sealed b) = PrevHash b" "Difficulty (sealed b) = Difficulty b"
  by (simp_all add: sealed_def)

lemma length_rounds: "length st = 8 \<Longrightarrow> length (rounds ks ws st) = 8"
  by (induction ks ws st rule: rounds.induct) (simp_all add: round_step_def shuffle_def)

lemma length_compress: "length hs = 8 \<Longrightarrow> length (compress hs blk) = 8"
  by (simp add: compress_def length_rounds)

lemma length_foldl_compress: "length hs = 8 \<Longrightarrow> length (foldl compress hs blks) = 8"
  by (induction blks arbitrary: hs) (simp_all add: length_compress)

lemma length_sha256: "length (sha256 m) = 8"
  by (simp add: sha256_def length_foldl_compress H0_def)

lemma length_concat_hex32: "length (concat (map hex32 ws)) = 8 * length ws"
  by (induction ws) (simp_all add: hex32_def)

lemma length_sha256_hex: "length (sha256_hex s) = 64"
  by (simp add: sha256_hex_def length_concat_hex32 length_sha256)

lemma length_CalculateHash: "length (CalculateHash b) = 64"
  by (simp add: CalculateHash_def length_sha256_hex)

lemma CalculateHash_nonempty: "CalculateHash b \<noteq> []"
  using length_CalculateHash [of b] by auto

lemma CumulativeDifficulty_foldl:
  "foldl (\<lambda>total b. total + Difficulty b) acc chain = acc + sum_list (map Difficulty chain)"
  by (induction chain arbitrary: acc) (simp_all add: add.assoc)

lemma CumulativeDifficulty_sum: "CumulativeDifficulty chain = sum_list (map Difficulty chain)"
  by (simp add: CumulativeDifficulty_def CumulativeDifficulty_foldl)

subsection \<open>The mining loop\<close>

lemma CalculateHash_bumped_Hash [simp]:
  "CalculateHash (bumped (b\<lparr>Hash := h\<rparr>) k) = CalculateHash (bumped b k)"
  by (simp add: CalculateHash_def hash_record_def bumped_def)

lemma bumped_0 [simp]: "bumped b 0 = b"
  by (simp add: bumped_def)

lemma bumped_step:
  "bumped (b\<lparr>Hash := h, Nonce := Nonce b + 1\<rparr>) k = (bumped b (Suc k))\<lparr>Hash := h\<rparr>"
  by (simp add: bumped_def ac_simps)



lemma mine_loop_found:
  "HasPrefix (CalculateHash b) target \<Longrightarrow> mine_loop target b = Some (b\<lparr>Hash := CalculateHash b\<rparr>)"
  by (subst mine_loop.simps) simp

lemma mine_loop_next:
  "\<not> HasPrefix (CalculateHash b) target \<Longrightarrow>
     mine_loop target b = mine_loop target (b\<lparr>Hash := CalculateHash b, Nonce := Nonce b + 1\<rparr>)"
  by (subst mine_loop.simps) simp


lemma mine_loop_first_solution:
  "\<forall>j<k. \<not> HasPrefix (CalculateHash (bumped b j)) target \<Longrightarrow>
   HasPrefix (CalculateHash (bumped b k)) target \<Longrightarrow>
   mine_loop target b = Some ((bumped b k)\<lparr>Hash := CalculateHash (bumped b k)\<rparr>)"
proof (induction k arbitrary: b)
  case 0
  then show ?case by (simp add: mine_loop_found)
next
  case (Suc k)
  let ?b1 = "b\<lparr>Hash := CalculateHash b, Nonce := Nonce b + 1\<rparr>"
  from Suc.prems(1) have miss: "\<not> HasPrefix (CalculateHash b) target"
    using bumped_0 [of b] by auto
  have step: "CalculateHash (bumped ?b1 j) = CalculateHash (bumped b (Suc j))" for j
    by (simp only: bumped_step CalculateHash_Hash_update)
  have "\<forall>j<k. \<not> HasPrefix (CalculateHash (bumped ?b1 j)) target"
    using Suc.prems(1) by (simp only: step) auto
  moreover have "HasPrefix (CalculateHash (bumped ?b1 k)) target"
    using Suc.prems(2) by (simp only: step)
  ultimately have "mine_loop target ?b1 = Some ((bumped ?b1 k)\<lparr>Hash := CalculateHash (bumped ?b1 k)\<rparr>)"
    by (rule Suc.IH)
  also have "(bumped ?b1 k)\<lparr>Hash := CalculateHash (bumped ?b1 k)\<rparr>
               = (bumped b (Suc k))\<lparr>Hash := CalculateHash (bumped b (Suc k))\<rparr>"
    by (simp only: step) (simp add: bumped_def ac_simps)
  finally show ?case
    using mine_loop_next [OF miss] by (simp only:)
qed


lemma HasPrefix_empty [simp]: "HasPrefix s []"
  by (simp add: HasPrefix_def)

lemma HasPrefix_zeros_leading:
  "HasPrefix s (replicate n CHR ''0'') \<Longrightarrow> n \<le> leading_zeros s"
proof (induction n arbitrary: s)
  case 0
  then show ?case by simp
next
  case (Suc n)
  then show ?case
    by (cases s) (auto simp add: HasPrefix_def leading_zeros_def)
qed

lemma mine_loop_sound:
  assumes "mine_loop target b = Some b'"
  shows "\<exists>k. (\<forall>j<k. \<not> HasPrefix (CalculateHash (bumped b j)) target)
        \<and> HasPrefix (CalculateHash (bumped b k)) target
        \<and> b' = (bumped b k)\<lparr>Hash := CalculateHash (bumped b k)\<rparr>"
proof -
  define P where "P = (\<lambda>t x y. \<exists>k. (\<forall>j<k. \<not> HasPrefix (CalculateHash (bumped x j)) t)
        \<and> HasPrefix (CalculateHash (bumped x k)) t
        \<and> y = (bumped x k)\<lparr>Hash := CalculateHash (bumped x k)\<rparr>)"
  have step: "P t x y"
    if IH: "\<And>t x y. loop t x = Some y \<Longrightarrow> P t x y"
    and eq: "(if HasPrefix (CalculateHash x) t then Some (x\<lparr>Hash := CalculateHash x\<rparr>)
              else loop t (x\<lparr>Hash := CalculateHash x, Nonce := Nonce x + 1\<rparr>)) = Some y"
    for loop t x y
  proof (cases "HasPrefix (CalculateHash x) t")
    case True
    with eq have "y = x\<lparr>Hash := CalculateHash x\<rparr>" by simp
    then have "y = (bumped x 0)\<lparr>Hash := CalculateHash (bumped x 0)\<rparr>"
      by (simp only: bumped_0)
    moreover have "HasPrefix (CalculateHash (bumped x 0)) t"
      using True by (simp only: bumped_0)
    moreover have "\<forall>j<0::nat. \<not> HasPrefix (CalculateHash (bumped x j)) t"
      by simp
    ultimately show ?thesis unfolding P_def by (intro exI [of _ 0] conjI)
  next
    case False
    let ?x1 = "x\<lparr>Hash := CalculateHash x, Nonce := Nonce x + 1\<rparr>"
    have shift: "CalculateHash (bumped ?x1 j) = CalculateHash (bumped x (Suc j))" for j
      by (simp only: bumped_step CalculateHash_Hash_update)
    from False eq have "loop t ?x1 = Some y" by simp
    from IH [OF this] obtain k where
      kk: "(\<forall>j<k. \<not> HasPrefix (CalculateHash (bumped ?x1 j)) t)
         \<and> HasPrefix (CalculateHash (bumped ?x1 k)) t
         \<and> y = (bumped ?x1 k)\<lparr>Hash := CalculateHash (bumped ?x1 k)\<rparr>"
      unfolding P_def ..
    have "\<forall>j<Suc k. \<not> HasPrefix (CalculateHash (bumped x j)) t"
    proof (intro allI impI)
      fix j assume "j < Suc k"
      show "\<not> HasPrefix (CalculateHash (bumped x j)) t"
      proof (cases j)
        case 0
        with False show ?thesis by simp
      next
        case (Suc i)
        with \<open>j < Suc k\<close> have "i < k" by simp
        with kk have "\<not> HasPrefix (CalculateHash (bumped ?x1 i)) t" by (elim conjE allE [of _ i]) (erule mp)
        then show ?thesis unfolding shift Suc .
      qed
    qed
    moreover have "HasPrefix (CalculateHash (bumped x (Suc k))) t"
      using kk [THEN conjunct2, THEN conjunct1] by (simp only: shift)
    moreover have "y = (bumped x (Suc k))\<lparr>Hash := CalculateHash (bumped x (Suc k))\<rparr>"
    proof -
      from kk [THEN conjunct2, THEN conjunct2]
      have "y = (bumped ?x1 k)\<lparr>Hash := CalculateHash (bumped ?x1 k)\<rparr>" .
      then show ?thesis by (simp only: shift) (simp add: bumped_def ac_simps)
    qed
    ultimately show ?thesis unfolding P_def by (intro exI [of _ "Suc k"] conjI)
  qed
  have "P target b b'"
    by (rule mine_loop.raw_induct [where P = P, OF step assms])
  then show ?thesis unfolding P_def .
qed

subsection \<open>Evaluating digests\<close>

lemma schedule_numeral: "schedule (numeral k) ws = schedule (pred_numeral k) (sched_word ws # ws)"
  by (simp add: numeral_eq_Suc)

lemma zeros_numeral: "zeros (numeral k) = 0 # zeros (pred_numeral k)"
  by (simp add: numeral_eq_Suc)

lemma chunks_numeral: "chunks (numeral k) xs = take 16 xs # chunks (pred_numeral k) (drop 16 xs)"
  by (simp add: numeral_eq_Suc)

lemma chunks_1: "chunks 1 xs = [take 16 xs]"
  using chunks.simps(2) [of 0 xs] by simp

lemmas sha256_eval =
  sha256_hex_def sha256_def pad_def be64_def compress_def K256_def H0_def hex32_def hexdigit_def
  rotr_def shr_def Ch_def Maj_def bsig0_def bsig1_def ssig0_def ssig1_def add32_def
  sched_word_def shuffle_def round_step_def schedule_numeral zeros_numeral chunks_numeral chunks_1

lemmas record_eval =
  hash_record_def serializeReceivers_def fmt_v_strings_def fmt_extra_string_def fmt_d_def
  digits.simps digit_char_def

text \<open>The one-block example of FIPS 180-4.\<close>

lemma sha256_hex_abc:
  "sha256_hex ''abc'' = ''ba7816bf8f01cfea414140de5dae2223b00361a396177a9cb410ff61f20015ad''"
  by (simp add: sha256_eval)

section \<open>Fork choice\<close>

subsection \<open>Slices without nil\<close>

lemma sum_difficulty_Some:
  "sum_difficulty running (map Some chain)
     = Inr (foldl (\<lambda>total b. total + Difficulty b) running chain)"
  by (induction chain arbitrary: running) simp_all

lemma CumulativeDifficulty_ptr_Some:
  "CumulativeDifficulty_ptr (map Some chain) = Inr (CumulativeDifficulty chain)"
  by (simp add: CumulativeDifficulty_ptr_def CumulativeDifficulty_def sum_difficulty_Some)

lemma valid_from_ptr_Some:
  "valid_from_ptr previous (map Some chain) = Inr (valid_from previous chain)"
  by (induction chain arbitrary: previous) simp_all

lemma IsValidChain_ptr_Some: "IsValidChain_ptr (map Some chain) = Inr (IsValidChain chain)"
  by (cases chain) (simp_all add: valid_from_ptr_Some)

subsection \<open>Slices with a nil\<close>

lemma sum_difficulty_nil:
  "sum_difficulty running (map Some good @ None # rest) = Inl NilDereference"
  by (induction good arbitrary: running) simp_all

lemma CumulativeDifficulty_ptr_nil:
  "CumulativeDifficulty_ptr (map Some good @ None # rest) = Inl NilDereference"
  by (simp add: CumulativeDifficulty_ptr_def sum_difficulty_nil)

lemma valid_from_ptr_nil:
  "valid_from_ptr previous (map Some good @ None # rest)
     = (if valid_from previous good then Inl NilDereference else Inr False)"
  by (induction good arbitrary: previous) simp_all

lemma IsValidChain_ptr_nil:
  "IsValidChain_ptr (map Some good @ None # rest)
     = (if good = [] \<or> IsValidChain good then Inl NilDereference else Inr False)"
  by (cases good) (simp_all add: valid_from_ptr_nil)

subsection \<open>The sum in Go's int\<close>

lemma wrap_int_signed_take_bit: "wrap_int n = signed_take_bit 63 n"
  by (simp add: wrap_int_def signed_take_bit_eq_take_bit_shift take_bit_eq_mod)

lemma wrap_int_fits: "fits_int n \<Longrightarrow> wrap_int n = n"
  by (simp add: wrap_int_signed_take_bit fits_int_def signed_take_bit_int_eq_self)

lemma sint_sum_list:
  "sint (sum_list (map Difficulty chain)) = wrap_int (difficulty_sum chain)"
proof (induction chain)
  case Nil
  show ?case by (simp add: difficulty_sum_def wrap_int_def)
next
  case (Cons b chain)
  have "sint (Difficulty b + sum_list (map Difficulty chain))
          = signed_take_bit 63 (sint (Difficulty b) + sint (sum_list (map Difficulty chain)))"
    by (simp add: sint_word_ariths)
  also have "\<dots> = signed_take_bit 63 (signed_take_bit 63 (sint (Difficulty b))
                                        + signed_take_bit 63 (difficulty_sum chain))"
  proof -
    have "signed_take_bit 63 (sint (Difficulty b)) = sint (Difficulty b)"
      using sint_ge [of "Difficulty b"] sint_lt [of "Difficulty b"]
      by (intro signed_take_bit_int_eq_self) simp_all
    then show ?thesis
      by (simp only: Cons.IH wrap_int_signed_take_bit)
  qed
  also have "\<dots> = signed_take_bit 63 (sint (Difficulty b) + difficulty_sum chain)"
    by (rule signed_take_bit_add)
  finally show ?case
    by (simp add: difficulty_sum_def wrap_int_signed_take_bit)
qed

lemma sint_CumulativeDifficulty:
  "sint (CumulativeDifficulty chain) = wrap_int (difficulty_sum chain)"
  by (simp only: CumulativeDifficulty_sum sint_sum_list)

lemma ReplaceChain_Some:
  "ReplaceChain (map Some blocks) (map Some newChain) =
     Inr (if IsValidChain newChain
            \<and> wrap_int (difficulty_sum blocks) < wrap_int (difficulty_sum newChain)
          then (True, map Some newChain) else (False, map Some blocks))"
  by (simp add: ReplaceChain_def IsValidChain_ptr_Some CumulativeDifficulty_ptr_Some
        word_sless_alt sint_CumulativeDifficulty)

lemma sample_chain_valid: "IsValidChain [sealed genesis_shell, sealed (second_shell d)]"
  by (simp add: second_shell_def genesis_shell_def)

lemma sample_chain_sum:
  "difficulty_sum [sealed genesis_shell, sealed (second_shell d)] = 3 + sint d"
  by (simp add: difficulty_sum_def second_shell_def genesis_shell_def)

text \<open>
  C2, as stated: a valid candidate whose difficulty fields sum to more than the local
  chain's replaces it. The candidate below is valid and its two difficulty fields, 3 and
  9223372036854775807, sum to 9223372036854775810 against the 3 of the local chain; in
  Go's int the sum is -9223372036854775806, and the candidate is refused.
\<close>

theorem ReplaceChain_refuses_heavier_candidate:
  "IsValidChain_ptr [Some (sealed genesis_shell),
                     Some (sealed (second_shell 9223372036854775807))] = Inr True
   \<and> difficulty_sum [sealed genesis_shell] = 3
   \<and> difficulty_sum [sealed genesis_shell, sealed (second_shell 9223372036854775807)]
       = 9223372036854775810
   \<and> CumulativeDifficulty_ptr [Some (sealed genesis_shell),
                               Some (sealed (second_shell 9223372036854775807))]
       = Inr (- 9223372036854775806)
   \<and> ReplaceChain [Some (sealed genesis_shell)]
                  [Some (sealed genesis_shell), Some (sealed (second_shell 9223372036854775807))]
       = Inr (False, [Some (sealed genesis_shell)])"
proof -
  let ?d = "9223372036854775807 :: go_int"
  have "IsValidChain_ptr (map Some [sealed genesis_shell, sealed (second_shell ?d)]) = Inr True"
    by (simp only: IsValidChain_ptr_Some sample_chain_valid)
  then have v: "IsValidChain_ptr [Some (sealed genesis_shell), Some (sealed (second_shell ?d))]
                  = Inr True"
    by (simp only: list.map)
  have s1: "difficulty_sum [sealed genesis_shell] = 3"
    by (simp add: difficulty_sum_def genesis_shell_def)
  have s2: "difficulty_sum [sealed genesis_shell, sealed (second_shell ?d)] = 9223372036854775810"
    by (simp add: sample_chain_sum)
  have c2: "CumulativeDifficulty_ptr [Some (sealed genesis_shell), Some (sealed (second_shell ?d))]
              = Inr (- 9223372036854775806)"
    by (simp add: CumulativeDifficulty_ptr_def second_shell_def genesis_shell_def)
  have c1: "CumulativeDifficulty_ptr [Some (sealed genesis_shell)] = Inr 3"
    by (simp add: CumulativeDifficulty_ptr_def genesis_shell_def)
  have r: "ReplaceChain [Some (sealed genesis_shell)]
                  [Some (sealed genesis_shell), Some (sealed (second_shell ?d))]
       = Inr (False, [Some (sealed genesis_shell)])"
    by (simp add: ReplaceChain_def v c1 c2 word_sless_alt)
  from v s1 s2 c2 r show ?thesis by (intro conjI)
qed

text \<open>
  C2, amended. For a local chain and a candidate without nil pointers, \<open>ReplaceChain\<close>
  returns true and installs the candidate exactly when the candidate passes
  \<open>IsValidChain\<close> and its cumulative difficulty is strictly greater than the local
  chain's, where a cumulative difficulty is the sum of the difficulty fields wrapped
  into Go's 64-bit int; in every other case it returns false and the local chain is as
  before. When neither sum leaves the range of int the comparison is that of the sums
  themselves. A candidate with a nil pointer never replaces the chain: the call panics
  on the nil if it is the first element or if the blocks before it pass the checks, and
  returns false otherwise, the local chain untouched. A local chain with a nil pointer
  makes the call panic when the candidate is valid, and is left as it is otherwise.
\<close>

theorem ReplaceChain_fork_choice_modulo_wrap:
  "ReplaceChain (map Some blocks) (map Some newChain) =
     Inr (if IsValidChain newChain
            \<and> wrap_int (difficulty_sum blocks) < wrap_int (difficulty_sum newChain)
          then (True, map Some newChain) else (False, map Some blocks))
   \<and> (fits_int (difficulty_sum blocks) \<and> fits_int (difficulty_sum newChain) \<longrightarrow>
        ReplaceChain (map Some blocks) (map Some newChain) =
          Inr (if IsValidChain newChain \<and> difficulty_sum blocks < difficulty_sum newChain
               then (True, map Some newChain) else (False, map Some blocks)))
   \<and> ReplaceChain held (map Some good @ None # rest) =
        (if good = [] \<or> IsValidChain good then Inl NilDereference else Inr (False, held))
   \<and> ReplaceChain (map Some good @ None # rest) (map Some newChain) =
        (if IsValidChain newChain then Inl NilDereference
         else Inr (False, map Some good @ None # rest))"
proof (intro conjI impI)
  show "ReplaceChain (map Some blocks) (map Some newChain) =
     Inr (if IsValidChain newChain
            \<and> wrap_int (difficulty_sum blocks) < wrap_int (difficulty_sum newChain)
          then (True, map Some newChain) else (False, map Some blocks))"
    by (rule ReplaceChain_Some)
next
  assume "fits_int (difficulty_sum blocks) \<and> fits_int (difficulty_sum newChain)"
  then show "ReplaceChain (map Some blocks) (map Some newChain) =
          Inr (if IsValidChain newChain \<and> difficulty_sum blocks < difficulty_sum newChain
               then (True, map Some newChain) else (False, map Some blocks))"
    by (simp only: ReplaceChain_Some wrap_int_fits)
next
  show "ReplaceChain held (map Some good @ None # rest) =
        (if good = [] \<or> IsValidChain good then Inl NilDereference else Inr (False, held))"
    by (simp add: ReplaceChain_def IsValidChain_ptr_nil)
next
  show "ReplaceChain (map Some good @ None # rest) (map Some newChain) =
        (if IsValidChain newChain then Inl NilDereference
         else Inr (False, map Some good @ None # rest))"
    by (simp add: ReplaceChain_def IsValidChain_ptr_Some CumulativeDifficulty_ptr_Some
          CumulativeDifficulty_ptr_nil)
qed

text \<open>
  Two chains on one genesis block, of cumulative difficulty 6 and 8: the heavier replaces
  the lighter, not the other way round, and a chain does not replace itself. A candidate
  of one nil pointer panics, and so does the genesis block followed by nil; an unsealed
  genesis block followed by nil is refused. With a nil pointer in the local chain the
  heavier candidate panics.
\<close>

theorem ReplaceChain_fork_choice_modulo_wrap_witness:
  "ReplaceChain [Some (sealed genesis_shell), Some (sealed (second_shell 3))]
                [Some (sealed genesis_shell), Some (sealed (second_shell 5))]
     = Inr (True, [Some (sealed genesis_shell), Some (sealed (second_shell 5))])
   \<and> ReplaceChain [Some (sealed genesis_shell), Some (sealed (second_shell 5))]
                  [Some (sealed genesis_shell), Some (sealed (second_shell 3))]
     = Inr (False, [Some (sealed genesis_shell), Some (sealed (second_shell 5))])
   \<and> ReplaceChain [Some (sealed genesis_shell), Some (sealed (second_shell 3))]
                  [Some (sealed genesis_shell), Some (sealed (second_shell 3))]
     = Inr (False, [Some (sealed genesis_shell), Some (sealed (second_shell 3))])
   \<and> difficulty_sum [sealed genesis_shell, sealed (second_shell 3)] = 6
   \<and> difficulty_sum [sealed genesis_shell, sealed (second_shell 5)] = 8
   \<and> ReplaceChain [Some (sealed genesis_shell)] [None] = Inl NilDereference
   \<and> ReplaceChain [Some (sealed genesis_shell)] [Some (sealed genesis_shell), None]
       = Inl NilDereference
   \<and> ReplaceChain [Some (sealed genesis_shell)] [Some genesis_shell, None]
       = Inr (False, [Some (sealed genesis_shell)])
   \<and> ReplaceChain [Some (sealed genesis_shell), None]
                  [Some (sealed genesis_shell), Some (sealed (second_shell 5))]
       = Inl NilDereference"
proof -
  let ?light = "[sealed genesis_shell, sealed (second_shell 3)]"
  let ?heavy = "[sealed genesis_shell, sealed (second_shell 5)]"
  have wl: "difficulty_sum ?light = 6" and wh: "difficulty_sum ?heavy = 8"
    by (simp_all add: sample_chain_sum)
  have fl: "fits_int (difficulty_sum ?light)" and fh: "fits_int (difficulty_sum ?heavy)"
    by (simp_all only: wl wh) (simp_all add: fits_int_def)
  have vl: "IsValidChain ?light" and vh: "IsValidChain ?heavy"
    by (rule sample_chain_valid)+
  have one: "IsValidChain [sealed genesis_shell]"
    by (simp add: genesis_shell_def)
  have digest: "CalculateHash genesis_shell \<noteq> []"
    by (rule CalculateHash_nonempty)
  have unsealed: "\<not> IsValidChain [genesis_shell]"
    using digest by (simp add: genesis_shell_def)
  have a: "ReplaceChain (map Some ?light) (map Some ?heavy) = Inr (True, map Some ?heavy)"
    using ReplaceChain_fork_choice_modulo_wrap [of ?light ?heavy, THEN conjunct2, THEN conjunct1]
          fl fh vh
    by (simp only: wl wh) simp
  have b: "ReplaceChain (map Some ?heavy) (map Some ?light) = Inr (False, map Some ?heavy)"
    using ReplaceChain_fork_choice_modulo_wrap [of ?heavy ?light, THEN conjunct2, THEN conjunct1]
          fl fh vl
    by (simp only: wl wh) simp
  have c: "ReplaceChain (map Some ?light) (map Some ?light) = Inr (False, map Some ?light)"
    using ReplaceChain_fork_choice_modulo_wrap [of ?light ?light, THEN conjunct2, THEN conjunct1]
          fl vl
    by (simp only: wl) simp
  have d: "ReplaceChain [Some (sealed genesis_shell)] (map Some [] @ None # []) = Inl NilDereference"
    using ReplaceChain_fork_choice_modulo_wrap
            [where good = "[]" and rest = "[]" and held = "[Some (sealed genesis_shell)]",
             THEN conjunct2, THEN conjunct2, THEN conjunct1]
    by simp
  have e: "ReplaceChain [Some (sealed genesis_shell)] (map Some [sealed genesis_shell] @ None # [])
             = Inl NilDereference"
    using ReplaceChain_fork_choice_modulo_wrap
            [where good = "[sealed genesis_shell]" and rest = "[]"
               and held = "[Some (sealed genesis_shell)]",
             THEN conjunct2, THEN conjunct2, THEN conjunct1] one
    by (simp only: if_True simp_thms)
  have f: "ReplaceChain [Some (sealed genesis_shell)] (map Some [genesis_shell] @ None # [])
             = Inr (False, [Some (sealed genesis_shell)])"
    using ReplaceChain_fork_choice_modulo_wrap
            [where good = "[genesis_shell]" and rest = "[]"
               and held = "[Some (sealed genesis_shell)]",
             THEN conjunct2, THEN conjunct2, THEN conjunct1] unsealed
    by (simp only: if_False simp_thms list.simps)
  have g: "ReplaceChain (map Some [sealed genesis_shell] @ None # []) (map Some ?heavy)
             = Inl NilDereference"
    using ReplaceChain_fork_choice_modulo_wrap
            [where good = "[sealed genesis_shell]" and rest = "[]" and newChain = ?heavy,
             THEN conjunct2, THEN conjunct2, THEN conjunct2] vh
    by (simp only: if_True)
  from a b c wl wh d e f g show ?thesis
    by (simp only: list.map append.simps simp_thms)
qed

section \<open>Pruning\<close>

lemma digits_1700000000: "fmt_d 1700000000 = ''1700000000''"
  by (simp add: fmt_d_def digits.simps digit_char_def)

text \<open>
  C7. For a non-negative \<open>retainCount\<close>: a chain no longer than \<open>retainCount\<close> is left
  alone and the call succeeds, writing nothing. A longer chain is cut to its last
  \<open>retainCount\<close> blocks exactly when the encoder and the file write both succeed, and
  then the file holds the encoding of the oldest \<open>length - retainCount\<close> blocks; when
  either fails an error is returned and the chain in memory is the one before the call.
\<close>

theorem PruneAndArchive_outcomes:
  assumes "0 \<le> sint retainCount"
  shows "(int (length blocks) \<le> sint retainCount \<longrightarrow>
            PruneAndArchive io blocks retainCount label
              = Inr \<lparr>returned = None, blocks_after = blocks, written = None\<rparr>)
       \<and> (sint retainCount < int (length blocks) \<longrightarrow>
            (\<exists>r. PruneAndArchive io blocks retainCount label = Inr r
               \<and> (returned r = None \<longleftrightarrow>
                    (\<exists>data. marshal io (take (length blocks - nat (sint retainCount)) blocks) = Some data
                          \<and> write_file io (archive_name io label) data))
               \<and> (returned r = None \<longrightarrow>
                    blocks_after r = drop (length blocks - nat (sint retainCount)) blocks
                  \<and> int (length (blocks_after r)) = sint retainCount
                  \<and> take (length blocks - nat (sint retainCount)) blocks @ blocks_after r = blocks
                  \<and> (\<exists>data. marshal io (take (length blocks - nat (sint retainCount)) blocks) = Some data
                          \<and> written r = Some (archive_name io label, data)))
               \<and> (returned r \<noteq> None \<longrightarrow> blocks_after r = blocks \<and> written r = None)))"
proof (intro conjI impI)
  assume "int (length blocks) \<le> sint retainCount"
  then show "PruneAndArchive io blocks retainCount label
               = Inr \<lparr>returned = None, blocks_after = blocks, written = None\<rparr>"
    by (simp add: PruneAndArchive_def)
next
  assume long: "sint retainCount < int (length blocks)"
  let ?k = "length blocks - nat (sint retainCount)"
  have len: "int (length (drop ?k blocks)) = sint retainCount"
    using assms long by simp
  show "\<exists>r. PruneAndArchive io blocks retainCount label = Inr r
          \<and> (returned r = None \<longleftrightarrow>
               (\<exists>data. marshal io (take ?k blocks) = Some data
                     \<and> write_file io (archive_name io label) data))
          \<and> (returned r = None \<longrightarrow>
               blocks_after r = drop ?k blocks
             \<and> int (length (blocks_after r)) = sint retainCount
             \<and> take ?k blocks @ blocks_after r = blocks
             \<and> (\<exists>data. marshal io (take ?k blocks) = Some data
                     \<and> written r = Some (archive_name io label, data)))
          \<and> (returned r \<noteq> None \<longrightarrow> blocks_after r = blocks \<and> written r = None)"
  proof (cases "marshal io (take ?k blocks)")
    case None
    then show ?thesis
      using assms long by (simp add: PruneAndArchive_def)
  next
    case (Some data)
    show ?thesis
    proof (cases "write_file io (archive_name io label) data")
      case True
      with Some show ?thesis
        using assms long len by (auto simp add: PruneAndArchive_def)
    next
      case False
      with Some show ?thesis
        using assms long by (simp add: PruneAndArchive_def)
    qed
  qed
qed

text \<open>
  Three blocks, one retained: the two oldest are archived. With a disk that refuses the
  write, the three blocks stay. With a retention of five, nothing happens.
\<close>

theorem PruneAndArchive_outcomes_witness:
  "PruneAndArchive io_ok [sealed genesis_shell, sealed (second_shell 3), sealed (second_shell 5)]
       1 ''archive''
     = Inr \<lparr>returned = None, blocks_after = [sealed (second_shell 5)],
            written = Some (''archive_1700000000.json'',
                            CalculateHash genesis_shell @ CalculateHash (second_shell 3))\<rparr>
   \<and> PruneAndArchive io_full_disk
        [sealed genesis_shell, sealed (second_shell 3), sealed (second_shell 5)] 1 ''archive''
     = Inr \<lparr>returned = Some WriteFailed,
            blocks_after = [sealed genesis_shell, sealed (second_shell 3), sealed (second_shell 5)],
            written = None\<rparr>
   \<and> PruneAndArchive io_ok
        [sealed genesis_shell, sealed (second_shell 3), sealed (second_shell 5)] 5 ''archive''
     = Inr \<lparr>returned = None,
            blocks_after = [sealed genesis_shell, sealed (second_shell 3), sealed (second_shell 5)],
            written = None\<rparr>"
proof -
  let ?c = "[sealed genesis_shell, sealed (second_shell 3), sealed (second_shell 5)]"
  have one: "(0::int) \<le> sint (1 :: go_int)" and five: "(0::int) \<le> sint (5 :: go_int)"
    by simp_all
  have name: "archive_name io_ok ''archive'' = ''archive_1700000000.json''"
    "archive_name io_full_disk ''archive'' = ''archive_1700000000.json''"
    by (simp_all add: archive_name_def io_ok_def io_full_disk_def digits_1700000000)
  have enc: "marshal io_ok (take (length ?c - nat (sint (1 :: go_int))) ?c)
               = Some (CalculateHash genesis_shell @ CalculateHash (second_shell 3))"
    "marshal io_full_disk (take (length ?c - nat (sint (1 :: go_int))) ?c)
               = Some (CalculateHash genesis_shell @ CalculateHash (second_shell 3))"
    by (simp_all add: io_ok_def io_full_disk_def sealed_def)
  have wr: "write_file io_ok n d" "\<not> write_file io_full_disk n d" for n d
    by (simp_all add: io_ok_def io_full_disk_def)
  from PruneAndArchive_outcomes [OF one, of ?c io_ok "''archive''"]
  obtain r where r: "PruneAndArchive io_ok ?c 1 ''archive'' = Inr r"
    and r_ok: "returned r = None"
    and r_rest: "returned r = None \<longrightarrow> blocks_after r = drop (length ?c - nat (sint (1 :: go_int))) ?c
                   \<and> (\<exists>data. marshal io_ok (take (length ?c - nat (sint (1 :: go_int))) ?c) = Some data
                          \<and> written r = Some (archive_name io_ok ''archive'', data))"
    using enc(1) wr(1) by (auto simp del: take_Suc_Cons)
  have "r = \<lparr>returned = None, blocks_after = [sealed (second_shell 5)],
             written = Some (''archive_1700000000.json'',
                             CalculateHash genesis_shell @ CalculateHash (second_shell 3))\<rparr>"
    using r_ok r_rest enc(1) name(1) by (cases r) (auto simp del: take_Suc_Cons)
  with r have first: "PruneAndArchive io_ok ?c 1 ''archive''
     = Inr \<lparr>returned = None, blocks_after = [sealed (second_shell 5)],
            written = Some (''archive_1700000000.json'',
                            CalculateHash genesis_shell @ CalculateHash (second_shell 3))\<rparr>"
    by simp
  from PruneAndArchive_outcomes [OF one, of ?c io_full_disk "''archive''"]
  obtain q where q: "PruneAndArchive io_full_disk ?c 1 ''archive'' = Inr q"
    and q_err: "returned q \<noteq> None"
    and q_rest: "returned q \<noteq> None \<longrightarrow> blocks_after q = ?c \<and> written q = None"
    using enc(2) wr(2) by (auto simp del: take_Suc_Cons)
  have "returned q = Some WriteFailed"
    using q q_err enc(2) wr(2) by (auto simp add: PruneAndArchive_def split: if_splits)
  then have "q = \<lparr>returned = Some WriteFailed, blocks_after = ?c, written = None\<rparr>"
    using q_rest by (cases q) auto
  with q have second: "PruneAndArchive io_full_disk ?c 1 ''archive''
     = Inr \<lparr>returned = Some WriteFailed, blocks_after = ?c, written = None\<rparr>"
    by simp
  have third: "PruneAndArchive io_ok ?c 5 ''archive''
     = Inr \<lparr>returned = None, blocks_after = ?c, written = None\<rparr>"
    using PruneAndArchive_outcomes [OF five, of ?c io_ok "''archive''"] by simp
  from first second third show ?thesis by blast
qed

section \<open>Receiving a block\<close>

text \<open>
  C10, as stated: every NEW_BLOCK that arrives while the local chain is empty runs into
  the out-of-range read. It does not when the payload fails to decode: the handler
  returns before the read and the (empty) chain is unchanged.
\<close>

theorem handleNewBlock_undecodable_on_empty_chain:
  "handleNewBlock [] DecodeError = Inr ([], False)"
  by simp

text \<open>
  C10, amended. A payload that fails to decode is dropped, the chain unchanged. For a
  payload that decodes to a block, the handler returns normally exactly when the local
  chain is non-empty: on the empty chain the read of the last element is out of range;
  on a non-empty chain the block is appended (and the chain rebroadcast) if and only if
  its previous-hash is the hash of the local tip and its stored hash equals the
  recomputed one, and otherwise the chain is unchanged.
\<close>

theorem handleNewBlock_total_iff_nonempty:
  "handleNewBlock blocks DecodeError = Inr (blocks, False)
   \<and> handleNewBlock [] (Decoded newBlock) = Inl IndexOutOfRange
   \<and> ((\<exists>r. handleNewBlock blocks (Decoded newBlock) = Inr r) \<longleftrightarrow> blocks \<noteq> [])
   \<and> (blocks \<noteq> [] \<longrightarrow>
        handleNewBlock blocks (Decoded newBlock) =
          Inr (if PrevHash newBlock = Hash (last blocks) \<and> Hash newBlock = CalculateHash newBlock
               then (blocks @ [newBlock], True) else (blocks, False)))"
  by (cases blocks) auto

text \<open>
  On the chain holding the sealed genesis block: the sealed successor is appended; the
  same block with its hash field left empty is not, and the genesis block itself (whose
  previous-hash is empty) is not.
\<close>

theorem handleNewBlock_total_iff_nonempty_witness:
  "handleNewBlock [sealed genesis_shell] (Decoded (sealed (second_shell 3)))
     = Inr ([sealed genesis_shell, sealed (second_shell 3)], True)
   \<and> handleNewBlock [sealed genesis_shell] (Decoded (second_shell 3))
     = Inr ([sealed genesis_shell], False)
   \<and> handleNewBlock [sealed genesis_shell] (Decoded (sealed genesis_shell))
     = Inr ([sealed genesis_shell], False)"
proof -
  have ne: "[sealed genesis_shell] \<noteq> []" by simp
  have digest: "CalculateHash b \<noteq> []" for b
    by (rule CalculateHash_nonempty)
  have a: "PrevHash (sealed (second_shell 3)) = Hash (last [sealed genesis_shell])"
    by (simp add: second_shell_def)
  have b: "Hash (second_shell 3) \<noteq> CalculateHash (second_shell 3)"
    using digest [of "second_shell 3"] by (simp add: second_shell_def genesis_shell_def)
  have c: "PrevHash (sealed genesis_shell) \<noteq> Hash (last [sealed genesis_shell])"
    using digest [of genesis_shell] by (simp add: sealed_def genesis_shell_def)
  show ?thesis
    using handleNewBlock_total_iff_nonempty [of "[sealed genesis_shell]" "sealed (second_shell 3)"]
          handleNewBlock_total_iff_nonempty [of "[sealed genesis_shell]" "second_shell 3"]
          handleNewBlock_total_iff_nonempty [of "[sealed genesis_shell]" "sealed genesis_shell"]
          ne a b c
    by simp
qed

section \<open>Difficulty adjustment\<close>

text \<open>
  C5, as stated for every chain: with fewer blocks than the window the last block's
  difficulty is returned. The empty chain has fewer blocks than a window of 1 and no last
  block; the read \<^verbatim>\<open>chain[n-1]\<close> is out of range.
\<close>

theorem AdjustDifficulty_empty_chain:
  "AdjustDifficulty [] (10 * Second) 1 = Inl IndexOutOfRange"
  by (simp add: AdjustDifficulty_def)

text \<open>
  C5, amended. For a non-empty chain and a window of at least one block: with fewer
  blocks than the window, the difficulty of the last block is returned. Otherwise, with
  the elapsed time between the block \<open>windowSize\<close> places from the end and the last block
  (seconds turned into an int64 count of nanoseconds) and the expected time
  \<open>targetTimePerBlock * windowSize\<close>, both in Go's int64 arithmetic: the difficulty
  plus one when the elapsed time is strictly below the expected time halved (integer
  division by 2), the difficulty minus one when the elapsed time is strictly above twice
  the expected time and the difficulty is above 1, and the unchanged difficulty
  otherwise.
\<close>

theorem AdjustDifficulty_bands:
  assumes "chain \<noteq> []" and "1 \<le> sint windowSize"
  shows "(int (length chain) < sint windowSize \<longrightarrow>
            AdjustDifficulty chain targetTimePerBlock windowSize = Inr (Difficulty (last chain)))
       \<and> (sint windowSize \<le> int (length chain) \<longrightarrow>
            AdjustDifficulty chain targetTimePerBlock windowSize =
              Inr (if (Timestamp (last chain)
                        - Timestamp (chain ! (length chain - nat (sint windowSize)))) * Second
                      <s go_quot (targetTimePerBlock * windowSize) 2
                   then Difficulty (last chain) + 1
                   else if targetTimePerBlock * windowSize * 2
                           <s (Timestamp (last chain)
                                - Timestamp (chain ! (length chain - nat (sint windowSize)))) * Second
                         \<and> 1 <s Difficulty (last chain)
                   then Difficulty (last chain) - 1
                   else Difficulty (last chain)))"
proof (intro conjI impI)
  assume "int (length chain) < sint windowSize"
  with assms show "AdjustDifficulty chain targetTimePerBlock windowSize = Inr (Difficulty (last chain))"
    by (simp add: AdjustDifficulty_def)
next
  assume le: "sint windowSize \<le> int (length chain)"
  have idx: "nat (int (length chain) - sint windowSize) = length chain - nat (sint windowSize)"
    using assms(2) le by simp
  have inrange: "length chain - nat (sint windowSize) < length chain"
    using assms by (cases chain) simp_all
  show "AdjustDifficulty chain targetTimePerBlock windowSize =
              Inr (if (Timestamp (last chain)
                        - Timestamp (chain ! (length chain - nat (sint windowSize)))) * Second
                      <s go_quot (targetTimePerBlock * windowSize) 2
                   then Difficulty (last chain) + 1
                   else if targetTimePerBlock * windowSize * 2
                           <s (Timestamp (last chain)
                                - Timestamp (chain ! (length chain - nat (sint windowSize)))) * Second
                         \<and> 1 <s Difficulty (last chain)
                   then Difficulty (last chain) - 1
                   else Difficulty (last chain))"
    using le inrange assms(2) by (simp add: AdjustDifficulty_def idx Let_def)
qed

text \<open>
  A window of 2 blocks at 10 seconds each (expected 20 s, bands at 10 s and 40 s): one
  block only; 1 s elapsed; 100 s elapsed; 20 s elapsed; 100 s elapsed at difficulty 1.
\<close>

theorem AdjustDifficulty_bands_witness:
  "AdjustDifficulty [stamped 100 3] (10 * Second) 2 = Inr 3
   \<and> AdjustDifficulty [stamped 100 3, stamped 101 3] (10 * Second) 2 = Inr 4
   \<and> AdjustDifficulty [stamped 100 3, stamped 200 3] (10 * Second) 2 = Inr 2
   \<and> AdjustDifficulty [stamped 100 3, stamped 120 3] (10 * Second) 2 = Inr 3
   \<and> AdjustDifficulty [stamped 100 3, stamped 200 1] (10 * Second) 2 = Inr 1"
proof -
  have w: "(1::int) \<le> sint (2 :: go_int)" by simp
  have q: "go_quot 20000000000 2 = 10000000000"
    by (simp add: go_quot_def signed_divide_int_def)
  have short: "int (length [stamped 100 3]) < sint (2 :: go_int)" by simp
  have full: "sint (2 :: go_int) \<le> int (length [stamped 100 3, stamped t d])" for t d by simp
  have "AdjustDifficulty [stamped 100 3] (10 * Second) 2 = Inr (Difficulty (last [stamped 100 3]))"
    by (rule AdjustDifficulty_bands [THEN conjunct1, THEN mp, OF _ w short]) simp
  then have a: "AdjustDifficulty [stamped 100 3] (10 * Second) 2 = Inr 3"
    by (simp add: stamped_def)
  have b: "AdjustDifficulty [stamped 100 3, stamped 101 3] (10 * Second) 2 = Inr 4"
    by (subst AdjustDifficulty_bands [THEN conjunct2, THEN mp, OF _ w full])
       (simp_all add: stamped_def Second_def q word_sless_alt)
  have c: "AdjustDifficulty [stamped 100 3, stamped 200 3] (10 * Second) 2 = Inr 2"
    by (subst AdjustDifficulty_bands [THEN conjunct2, THEN mp, OF _ w full])
       (simp_all add: stamped_def Second_def q word_sless_alt)
  have d: "AdjustDifficulty [stamped 100 3, stamped 120 3] (10 * Second) 2 = Inr 3"
    by (subst AdjustDifficulty_bands [THEN conjunct2, THEN mp, OF _ w full])
       (simp_all add: stamped_def Second_def q word_sless_alt)
  have e: "AdjustDifficulty [stamped 100 3, stamped 200 1] (10 * Second) 2 = Inr 1"
    by (subst AdjustDifficulty_bands [THEN conjunct2, THEN mp, OF _ w full])
       (simp_all add: stamped_def Second_def q word_sless_alt)
  from a b c d e show ?thesis by blast
qed

section \<open>Proof of work\<close>

subsection \<open>Digests of the sample blocks\<close>

lemma record_B0: "hash_record (stamped 1700000027 1) = ''01700000027one-to-oneText[Bob]10%!(EXTRA string=main)''"
  by (simp add: stamped_def genesis_shell_def record_eval)

lemma record_B1: "hash_record (bumped (stamped 1700000027 1) 1) = ''01700000027one-to-oneText[Bob]11%!(EXTRA string=main)''"
  by (simp add: stamped_def genesis_shell_def bumped_def record_eval)

lemma sha_B0: "sha256_hex ''01700000027one-to-oneText[Bob]10%!(EXTRA string=main)''
   = ''6ed1c57c48cd67961fdc3927f1c9a36e65af56f47f30ddc9f30ef9dff2ddcb60''"
  by (simp add: sha256_eval)

lemma sha_B1: "sha256_hex ''01700000027one-to-oneText[Bob]11%!(EXTRA string=main)''
   = ''004747202ab473a03a09d50b45066d664b86b45941fd8ca30eb121d25044bf2d''"
  by (simp add: sha256_eval)

lemma hash_B0: "CalculateHash (stamped 1700000027 1) = ''6ed1c57c48cd67961fdc3927f1c9a36e65af56f47f30ddc9f30ef9dff2ddcb60''"
  by (simp only: CalculateHash_def record_B0 sha_B0)

lemma hash_B1: "CalculateHash (bumped (stamped 1700000027 1) 1) = ''004747202ab473a03a09d50b45066d664b86b45941fd8ca30eb121d25044bf2d''"
  by (simp only: CalculateHash_def record_B1 sha_B1)

lemma MineBlock_zero: "MineBlock b 0 = Some (Inr (b\<lparr>Hash := CalculateHash b\<rparr>))"
  by (simp add: MineBlock_def target_of_def mine_loop_found)

lemma mine_B: "MineBlock (stamped 1700000027 1) 1 = Some (Inr mined_genesis)"
proof -
  have t: "target_of 1 = ''0''" by (simp add: target_of_def)
  have miss: "\<forall>j<1. \<not> HasPrefix (CalculateHash (bumped (stamped 1700000027 1) j)) ''0''"
    using hash_B0 by (simp add: HasPrefix_def)
  have hit: "HasPrefix (CalculateHash (bumped (stamped 1700000027 1) 1)) ''0''"
    by (simp only: hash_B1) (simp add: HasPrefix_def)
  have "mine_loop ''0'' (stamped 1700000027 1)
          = Some ((bumped (stamped 1700000027 1) 1)\<lparr>Hash := CalculateHash (bumped (stamped 1700000027 1) 1)\<rparr>)"
    using miss hit by (rule mine_loop_first_solution)
  also have "(bumped (stamped 1700000027 1) 1)\<lparr>Hash := CalculateHash (bumped (stamped 1700000027 1) 1)\<rparr>
               = mined_genesis"
    by (simp only: hash_B1) (simp add: mined_genesis_def bumped_def stamped_def genesis_shell_def)
  finally show ?thesis
    by (simp add: MineBlock_def t word_sless_alt)
qed

subsection \<open>What mining guarantees\<close>

text \<open>
  C3, as stated: on return the hash has exactly \<open>d\<close> leading zero characters. The loop
  stops at the first hash that starts with \<open>d\<close> zeros, and that hash may go on with
  more: mining the sample shell at difficulty 1 ends, after one increment of the nonce,
  with a hash that starts with two zeros.
\<close>

theorem MineBlock_more_zeros_than_asked:
  "MineBlock (stamped 1700000027 1) 1 = Some (Inr mined_genesis)
   \<and> leading_zeros (Hash mined_genesis) = 2"
  by (simp add: mine_B) (simp add: mined_genesis_def leading_zeros_def)

text \<open>
  C3, amended. At difficulty 0 \<open>MineBlock\<close> returns at once, with the hash of the block
  as it was given. Whenever \<open>MineBlock b d\<close> returns a block, \<open>d\<close> is not negative, the
  stored hash starts with \<open>d\<close> zero characters (so it has at least \<open>d\<close> leading zeros)
  and equals \<open>CalculateHash\<close> of the returned block; the returned block is the given one
  with its nonce advanced \<open>k\<close> times by one from the nonce it came with, and none of
  the \<open>k\<close> nonces tried before met the target. \<open>MineBlock\<close> returns a block exactly when
  \<open>d\<close> is not negative and some number of increments leads to a hash with the prefix.
\<close>

theorem MineBlock_outcome:
  "MineBlock b 0 = Some (Inr (b\<lparr>Hash := CalculateHash b\<rparr>))
   \<and> (MineBlock b d = Some (Inr b') \<longrightarrow>
        0 \<le> sint d
      \<and> HasPrefix (Hash b') (target_of d)
      \<and> nat (sint d) \<le> leading_zeros (Hash b')
      \<and> Hash b' = CalculateHash b'
      \<and> (\<exists>k. b' = (bumped b k)\<lparr>Hash := CalculateHash (bumped b k)\<rparr>
            \<and> (\<forall>j<k. \<not> HasPrefix (CalculateHash (bumped b j)) (target_of d))))
   \<and> ((\<exists>b'. MineBlock b d = Some (Inr b')) \<longleftrightarrow>
        0 \<le> sint d \<and> (\<exists>k. HasPrefix (CalculateHash (bumped b k)) (target_of d)))"
proof (intro conjI impI)
  show "MineBlock b 0 = Some (Inr (b\<lparr>Hash := CalculateHash b\<rparr>))"
    by (rule MineBlock_zero)
next
  assume mined: "MineBlock b d = Some (Inr b')"
  then have nonneg: "\<not> d <s 0"
    by (auto simp add: MineBlock_def split: if_splits)
  then show "0 \<le> sint d"
    by (simp add: word_sless_alt)
  from mined nonneg have "mine_loop (target_of d) b = Some b'"
    by (auto simp add: MineBlock_def)
  from mine_loop_sound [OF this] obtain k where
    k: "\<forall>j<k. \<not> HasPrefix (CalculateHash (bumped b j)) (target_of d)"
       "HasPrefix (CalculateHash (bumped b k)) (target_of d)"
       "b' = (bumped b k)\<lparr>Hash := CalculateHash (bumped b k)\<rparr>"
    by auto
  from k(3) have hash: "Hash b' = CalculateHash (bumped b k)" by simp
  with k(2) show pre: "HasPrefix (Hash b') (target_of d)" by simp
  then show "nat (sint d) \<le> leading_zeros (Hash b')"
    unfolding target_of_def by (rule HasPrefix_zeros_leading)
  from k(3) show "Hash b' = CalculateHash b'" by simp
  from k(1) k(3) show "\<exists>k. b' = (bumped b k)\<lparr>Hash := CalculateHash (bumped b k)\<rparr>
            \<and> (\<forall>j<k. \<not> HasPrefix (CalculateHash (bumped b j)) (target_of d))"
    by auto
next
  show "(\<exists>b'. MineBlock b d = Some (Inr b')) \<longleftrightarrow>
        0 \<le> sint d \<and> (\<exists>k. HasPrefix (CalculateHash (bumped b k)) (target_of d))"
  proof
    assume "\<exists>b'. MineBlock b d = Some (Inr b')"
    then obtain b' where mined: "MineBlock b d = Some (Inr b')" ..
    then have nonneg: "\<not> d <s 0"
      by (auto simp add: MineBlock_def split: if_splits)
    with mined have "mine_loop (target_of d) b = Some b'"
      by (auto simp add: MineBlock_def)
    from mine_loop_sound [OF this] nonneg
    show "0 \<le> sint d \<and> (\<exists>k. HasPrefix (CalculateHash (bumped b k)) (target_of d))"
      by (auto simp add: word_sless_alt)
  next
    assume rhs: "0 \<le> sint d \<and> (\<exists>k. HasPrefix (CalculateHash (bumped b k)) (target_of d))"
    define Q where "Q = (\<lambda>k. HasPrefix (CalculateHash (bumped b k)) (target_of d))"
    from rhs have "\<exists>k. Q k" by (simp add: Q_def)
    then have "Q (LEAST k. Q k)" and "\<forall>j<(LEAST k. Q k). \<not> Q j"
      by (auto intro: LeastI_ex dest: not_less_Least)
    then have "mine_loop (target_of d) b
                 = Some ((bumped b (LEAST k. Q k))\<lparr>Hash := CalculateHash (bumped b (LEAST k. Q k))\<rparr>)"
      unfolding Q_def by (intro mine_loop_first_solution)
    with rhs show "\<exists>b'. MineBlock b d = Some (Inr b')"
      by (simp add: MineBlock_def word_sless_alt)
  qed
qed

theorem MineBlock_outcome_witness:
  "MineBlock (stamped 1700000027 1) 1 = Some (Inr mined_genesis)
   \<and> HasPrefix (Hash mined_genesis) ''0''
   \<and> Hash mined_genesis = CalculateHash mined_genesis
   \<and> Nonce mined_genesis = Nonce (stamped 1700000027 1) + 1
   \<and> 1 \<le> leading_zeros (Hash mined_genesis)"
proof -
  have t: "target_of 1 = ''0''" by (simp add: target_of_def)
  from MineBlock_outcome [of "stamped 1700000027 1" 1 mined_genesis] mine_B
  have "HasPrefix (Hash mined_genesis) (target_of 1)"
    and "nat (sint (1 :: go_int)) \<le> leading_zeros (Hash mined_genesis)"
    and "Hash mined_genesis = CalculateHash mined_genesis"
    by blast+
  then show ?thesis
    using mine_B by (simp add: t) (simp add: mined_genesis_def stamped_def genesis_shell_def)
qed

section \<open>Chains built with CreateBlock and AddBlock\<close>

lemma IsValidChain_linked: "IsValidChain chain \<longleftrightarrow> linked chain \<and> PrevHash (hd chain) = []"
  by (cases chain) (auto simp add: linked_def)

lemma valid_from_append:
  "valid_from p (xs @ [b]) \<longleftrightarrow>
     valid_from p xs \<and> PrevHash b = Hash (last (p # xs)) \<and> Hash b = CalculateHash b"
  by (induction xs arbitrary: p) auto

lemma linked_append:
  "linked chain \<Longrightarrow> PrevHash b = Hash (last chain) \<Longrightarrow> Hash b = CalculateHash b \<Longrightarrow>
     linked (chain @ [b])"
  by (cases chain) (auto simp add: linked_def valid_from_append)

lemma linked_single: "Hash b = CalculateHash b \<Longrightarrow> linked [b]"
  by (simp add: linked_def)

lemma valid_from_tail: "valid_from p (x # xs) \<Longrightarrow> Hash x = CalculateHash x \<and> valid_from x xs"
  by (auto split: if_splits)

lemma linked_tl: "linked chain \<Longrightarrow> tl chain \<noteq> [] \<Longrightarrow> linked (tl chain)"
  by (cases chain; cases "tl chain") (auto simp add: linked_def split: if_splits)

lemma linked_drop: "linked chain \<Longrightarrow> k < length chain \<Longrightarrow> linked (drop k chain)"
proof (induction k arbitrary: chain)
  case 0
  then show ?case by simp
next
  case (Suc k)
  then have "tl chain \<noteq> []" by (cases chain) auto
  with Suc.prems have "linked (tl chain)" by (simp add: linked_tl)
  moreover have "k < length (tl chain)" using Suc.prems by simp
  ultimately have "linked (drop k (tl chain))" by (rule Suc.IH)
  then show ?case by (simp add: drop_Suc)
qed


lemma linked_nonempty: "linked chain \<Longrightarrow> chain \<noteq> []"
  by (auto simp add: linked_def)

lemma valid_from_self_consistent:
  "valid_from p xs \<Longrightarrow> x \<in> set xs \<Longrightarrow> Hash x = CalculateHash x"
  by (induction xs arbitrary: p) (auto split: if_splits)

lemma linked_self_consistent: "linked chain \<Longrightarrow> x \<in> set chain \<Longrightarrow> Hash x = CalculateHash x"
  by (cases chain) (auto simp add: linked_def dest: valid_from_self_consistent)

lemma MineBlock_Inr:
  assumes "MineBlock b d = Some (Inr b')"
  shows "\<not> d <s 0"
    and "\<exists>k. (\<forall>j<k. \<not> HasPrefix (CalculateHash (bumped b j)) (target_of d))
            \<and> HasPrefix (CalculateHash (bumped b k)) (target_of d)
            \<and> b' = (bumped b k)\<lparr>Hash := CalculateHash (bumped b k)\<rparr>"
proof -
  from assms show nonneg: "\<not> d <s 0"
    by (auto simp add: MineBlock_def split: if_splits)
  with assms have "mine_loop (target_of d) b = Some b'"
    by (auto simp add: MineBlock_def)
  then show "\<exists>k. (\<forall>j<k. \<not> HasPrefix (CalculateHash (bumped b j)) (target_of d))
            \<and> HasPrefix (CalculateHash (bumped b k)) (target_of d)
            \<and> b' = (bumped b k)\<lparr>Hash := CalculateHash (bumped b k)\<rparr>"
    by (rule mine_loop_sound)
qed

lemma MineBlock_keeps:
  assumes "MineBlock b d = Some (Inr b')"
  shows "Hash b' = CalculateHash b'" and "PrevHash b' = PrevHash b"
  using MineBlock_Inr(2) [OF assms] by (auto simp add: bumped_def)

lemma CreateBlock_mined:
  assumes "CreateBlock now_tx now index prevHash rel recv text audio video pool d miner reward
             = Some (Inr (b, pool'))"
  shows "Hash b = CalculateHash b" and "PrevHash b = prevHash"
proof -
  from assms obtain shell where "MineBlock shell d = Some (Inr b)" and "PrevHash shell = prevHash"
    by (auto simp add: CreateBlock_def Let_def split: option.splits sum.splits)
  then show "Hash b = CalculateHash b" and "PrevHash b = prevHash"
    by (auto dest: MineBlock_keeps)
qed

lemma PruneAndArchive_50_cases:
  assumes "PruneAndArchive io blocks 50 label = Inr r"
  shows "blocks_after r = blocks \<or> (50 < length blocks \<and> blocks_after r = drop (length blocks - 50) blocks)"
  using assms by (auto simp add: PruneAndArchive_def split: if_splits option.splits)

lemma AddBlock_cases:
  assumes "AddBlock io chain b = Inr r"
  shows "blocks_after r = chain @ [b]
         \<or> (100 \<le> length chain \<and> blocks_after r = drop (length chain - 49) (chain @ [b]))"
proof (cases "100 < length (chain @ [b])")
  case True
  with assms have "PruneAndArchive io (chain @ [b]) 50 ''archive'' = Inr r"
    by (simp add: AddBlock_def)
  from PruneAndArchive_50_cases [OF this] True show ?thesis
    by auto
next
  case False
  with assms show ?thesis by (auto simp add: AddBlock_def)
qed

lemma produce_block_inv:
  assumes inv: "build_inv st" and ext: "produce_block st rq = Some (Inr st')"
  shows "build_inv st' \<and> snd st' = Suc (snd st)"
proof -
  obtain chain n where st: "st = (chain, n)" by (cases st)
  let ?prev = "if chain = [] then [] else Hash (last chain)"
  from ext st have "produce_block (chain, n) rq = Some (Inr st')" by simp
  then obtain b pool r where
    cb: "CreateBlock (rq_now_tx rq) (rq_now rq) (word_of_nat n) ?prev
           (rq_relationshipType rq) (rq_receivers rq) (rq_text rq) (rq_audio rq) (rq_video rq)
           (rq_pool rq) (rq_difficulty rq) (rq_miner rq) (rq_reward rq) = Some (Inr (b, pool))"
    and ab: "AddBlock (rq_io rq) chain b = Inr r"
    and st': "st' = (blocks_after r, Suc n)"
    unfolding produce_block_def fst_conv snd_conv
    by (auto split: option.splits sum.splits prod.splits)
  from CreateBlock_mined [OF cb] have hb: "Hash b = CalculateHash b" and pb: "PrevHash b = ?prev"
    by simp_all
  have linked': "linked (chain @ [b])"
  proof (cases "n = 0")
    case True
    with inv st have "chain = []" by (simp add: build_inv_def)
    with hb show ?thesis by (simp add: linked_single)
  next
    case False
    with inv st have l: "linked chain" by (simp add: build_inv_def)
    then have "chain \<noteq> []" by (rule linked_nonempty)
    with pb have "PrevHash b = Hash (last chain)" by simp
    with l hb show ?thesis by (intro linked_append)
  qed
  have tails: "\<forall>x \<in> set (tl (chain @ [b])). PrevHash x \<noteq> []"
  proof (cases "n = 0")
    case True
    with inv st have "chain = []" by (simp add: build_inv_def)
    then show ?thesis by simp
  next
    case False
    with inv st have l: "linked chain" and t: "\<forall>x \<in> set (tl chain). PrevHash x \<noteq> []"
      by (simp_all add: build_inv_def)
    from l have ne: "chain \<noteq> []" by (rule linked_nonempty)
    then have "last chain \<in> set chain" by simp
    with l have "Hash (last chain) = CalculateHash (last chain)" by (rule linked_self_consistent)
    with pb ne have "PrevHash b \<noteq> []" by (simp add: CalculateHash_nonempty)
    with t ne show ?thesis by (cases chain) auto
  qed
  from AddBlock_cases [OF ab]
  show ?thesis
  proof
    assume keep: "blocks_after r = chain @ [b]"
    have "Suc n \<le> 100 \<longrightarrow> length (chain @ [b]) = Suc n
            \<and> PrevHash (hd (chain @ [b])) = []"
    proof
      assume le: "Suc n \<le> 100"
      with inv st have len: "length chain = n" and first: "chain \<noteq> [] \<longrightarrow> PrevHash (hd chain) = []"
        by (simp_all add: build_inv_def)
      show "length (chain @ [b]) = Suc n \<and> PrevHash (hd (chain @ [b])) = []"
      proof (cases "chain = []")
        case True
        with pb len show ?thesis by simp
      next
        case False
        with first len show ?thesis by (cases chain) auto
      qed
    qed
    with keep linked' tails st' st show ?thesis
      by (simp add: build_inv_def)
  next
    assume cut: "100 \<le> length chain \<and> blocks_after r = drop (length chain - 49) (chain @ [b])"
    have big: "100 \<le> n"
    proof (rule ccontr)
      assume "\<not> 100 \<le> n"
      with inv st have "length chain = n" by (simp add: build_inv_def)
      with cut \<open>\<not> 100 \<le> n\<close> show False by simp
    qed
    from cut have k: "length chain - 49 < length (chain @ [b])" by simp
    with linked' have "linked (drop (length chain - 49) (chain @ [b]))" by (rule linked_drop)
    moreover have "set (tl (drop (length chain - 49) (chain @ [b]))) \<subseteq> set (tl (chain @ [b]))"
      by (metis drop_Suc set_drop_subset_set_drop tl_drop Suc_leI zero_less_Suc drop_0 le0)
    ultimately show ?thesis
      using tails big cut st' st by (auto simp add: build_inv_def)
  qed
qed

lemma build_inv_start: "build_inv ([], 0)"
  by (simp add: build_inv_def)

lemma build_preserves:
  "build_inv st \<Longrightarrow> build st rqs = Some (Inr st') \<Longrightarrow>
     build_inv st' \<and> snd st' = snd st + length rqs"
proof (induction rqs arbitrary: st)
  case Nil
  then show ?case by simp
next
  case (Cons rq rqs)
  from Cons.prems(2) obtain st1 where e: "produce_block st rq = Some (Inr st1)"
    and b: "build st1 rqs = Some (Inr st')"
    by (auto split: option.splits sum.splits)
  from produce_block_inv [OF Cons.prems(1) e] have "build_inv st1" and "snd st1 = Suc (snd st)"
    by simp_all
  with Cons.IH [OF _ b] show ?case by simp
qed


lemma built_chainD:
  assumes "built_chain rqs = Some chain"
  shows "\<exists>n. build ([], 0) rqs = Some (Inr (chain, n))"
  using assms by (auto simp add: built_chain_def split: option.splits sum.splits)

lemma AddBlock_io_ok:
  "AddBlock io_ok chain b =
     Inr (if 100 < length (chain @ [b])
          then \<lparr>returned = None, blocks_after = drop (length (chain @ [b]) - 50) (chain @ [b]),
                written = Some (archive_name io_ok ''archive'',
                                concat (map Hash (take (length (chain @ [b]) - 50) (chain @ [b]))))\<rparr>
          else \<lparr>returned = None, blocks_after = chain @ [b], written = None\<rparr>)"
  by (simp add: AddBlock_def PruneAndArchive_def io_ok_def)

lemma produce_block_easy:
  "\<exists>b. produce_block (chain, n) easy_request =
     Some (Inr (if 100 < length (chain @ [b]) then drop (length (chain @ [b]) - 50) (chain @ [b])
                else chain @ [b], Suc n))"
  unfolding produce_block_def fst_conv snd_conv CreateBlock_def Let_def
  by (simp add: easy_request_def MineBlock_zero AddBlock_io_ok)

lemma build_easy_ex: "\<exists>st'. build st (replicate k easy_request) = Some (Inr st')"
proof (induction k arbitrary: st)
  case 0
  then show ?case by simp
next
  case (Suc k)
  obtain chain n where st: "st = (chain, n)" by (cases st)
  from produce_block_easy [of chain n] obtain st1 where "produce_block st easy_request = Some (Inr st1)"
    unfolding st by blast
  with Suc.IH [of st1] show ?case by simp
qed

lemma build_append:
  "build st (xs @ ys) = (case build st xs of Some (Inr st') \<Rightarrow> build st' ys | other \<Rightarrow> other)"
  by (induction xs arbitrary: st) (auto split: option.splits sum.splits)

text \<open>
  C4, as stated: the chain is valid also once pruning has fired. After the 101st block
  \<open>AddBlock\<close> keeps the last 50 blocks; the first of them still carries the hash of its
  archived predecessor, and \<open>IsValidChain\<close> asks for an empty previous-hash in the first
  block.
\<close>

theorem built_chain_invalid_after_pruning:
  "map_option IsValidChain (built_chain (replicate 101 easy_request)) = Some False
   \<and> map_option length (built_chain (replicate 101 easy_request)) = Some 50"
proof -
  obtain st100 where b100: "build ([], 0) (replicate 100 easy_request) = Some (Inr st100)"
    using build_easy_ex [of "([], 0)" 100] ..
  obtain c100 n where st100: "st100 = (c100, n)" by (cases st100)
  from build_preserves [OF build_inv_start b100] st100
  have inv: "build_inv (c100, n)" and n: "n = 100" by auto
  then have len: "length c100 = 100" and tails: "\<forall>x \<in> set (tl c100). PrevHash x \<noteq> []"
    by (simp_all add: build_inv_def)
  from produce_block_easy [of c100 n] len obtain b where
    ext: "produce_block (c100, n) easy_request = Some (Inr (drop 51 (c100 @ [b]), Suc n))"
    by auto
  have e: "(101::nat) = Suc 100" by simp
  have "replicate 101 easy_request = replicate 100 easy_request @ [easy_request]"
    unfolding e by (simp only: replicate_Suc replicate_append_same)
  then have "build ([], 0) (replicate 101 easy_request) = Some (Inr (drop 51 (c100 @ [b]), Suc n))"
    using b100 st100 ext by (simp only: build_append) simp
  then have chain: "built_chain (replicate 101 easy_request) = Some (drop 51 (c100 @ [b]))"
    by (simp add: built_chain_def)
  have "hd (drop 51 (c100 @ [b])) = c100 ! 51"
    using len by (simp add: hd_drop_conv_nth nth_append)
  moreover have "c100 ! 51 \<in> set (tl c100)"
    using len by (cases c100) (auto simp add: nth_Cons')
  ultimately have "PrevHash (hd (drop 51 (c100 @ [b]))) \<noteq> []"
    using tails by simp
  then have "\<not> IsValidChain (drop 51 (c100 @ [b]))"
    by (simp add: IsValidChain_linked)
  with chain len show ?thesis by simp
qed

text \<open>
  C4, amended. A chain produced by rounds of \<open>CreateBlock\<close> and \<open>AddBlock\<close> alone is
  linked: every block's hash is its recomputed hash and every block after the first
  carries the hash of the block before it. It satisfies \<open>IsValidChain\<close> exactly when its
  first block has the empty previous-hash, and that is so as long as no more than 100
  blocks have been added, when the chain still holds every block produced.
\<close>

theorem built_chain_validity:
  assumes "built_chain rqs = Some chain" and "rqs \<noteq> []"
  shows "linked chain
       \<and> (IsValidChain chain \<longleftrightarrow> PrevHash (hd chain) = [])
       \<and> (length rqs \<le> 100 \<longrightarrow> IsValidChain chain \<and> length chain = length rqs)"
proof -
  from built_chainD [OF assms(1)] obtain n where b: "build ([], 0) rqs = Some (Inr (chain, n))" ..
  from build_preserves [OF build_inv_start b]
  have inv: "build_inv (chain, n)" and n: "n = length rqs" by auto
  from assms(2) n have pos: "0 < n" by simp
  with inv have l: "linked chain" by (simp add: build_inv_def)
  then have ne: "chain \<noteq> []" by (rule linked_nonempty)
  have "length rqs \<le> 100 \<longrightarrow> IsValidChain chain \<and> length chain = length rqs"
    using inv n l ne by (simp add: build_inv_def IsValidChain_linked)
  with l show ?thesis by (simp add: IsValidChain_linked)
qed

theorem built_chain_validity_witness:
  "map_option IsValidChain (built_chain (replicate 3 easy_request)) = Some True
   \<and> map_option length (built_chain (replicate 3 easy_request)) = Some 3"
proof -
  obtain st where b: "build ([], 0) (replicate 3 easy_request) = Some (Inr st)"
    using build_easy_ex [of "([], 0)" 3] ..
  then have chain: "built_chain (replicate 3 easy_request) = Some (fst st)"
    by (simp add: built_chain_def)
  have "replicate 3 easy_request \<noteq> []" by simp
  from built_chain_validity [OF chain this]
  have "IsValidChain (fst st) \<and> length (fst st) = 3" by auto
  with chain show ?thesis by simp
qed

section \<open>What the hash covers\<close>

subsection \<open>Decimal rendering is injective\<close>

lemma digit_char_code: "n < 10 \<Longrightarrow> of_char (digit_char n) = (48 + n :: nat)"
proof -
  assume "n < 10"
  then have "n \<in> {0, 1, 2, 3, 4, 5, 6, 7, 8, 9}" by auto
  then show ?thesis
    by (elim insertE emptyE) (simp_all add: digit_char_def)
qed

lemma digit_char_inj:
  assumes "a < 10" and "b < 10" and "digit_char a = digit_char b"
  shows "a = b"
proof -
  have "48 + a = (of_char (digit_char a) :: nat)"
    using assms(1) by (simp only: digit_char_code)
  also have "\<dots> = of_char (digit_char b)"
    by (simp only: assms(3))
  also have "\<dots> = 48 + b"
    using assms(2) by (simp only: digit_char_code)
  finally show ?thesis by (simp only: add_left_cancel)
qed

lemma digits_small: "n < 10 \<Longrightarrow> digits n = [digit_char n]"
  by (subst digits.simps) simp

lemma digits_snoc: "10 \<le> n \<Longrightarrow> digits n = digits (n div 10) @ [digit_char (n mod 10)]"
  by (subst digits.simps) simp

lemma digits_nonempty: "digits n \<noteq> []"
  by (cases "n < 10") (simp_all add: digits_small digits_snoc)

lemma digits_range: "c \<in> set (digits n) \<Longrightarrow> 48 \<le> (of_char c :: nat) \<and> (of_char c :: nat) \<le> 57"
proof (induction n rule: digits.induct)
  case (1 n)
  show ?case
  proof (cases "n < 10")
    case True
    with 1(2) have "c = digit_char n" by (simp add: digits_small)
    with True show ?thesis by (simp add: digit_char_code)
  next
    case False
    then have "digits n = digits (n div 10) @ [digit_char (n mod 10)]" by (simp add: digits_snoc)
    with 1(2) have "c \<in> set (digits (n div 10)) \<or> c = digit_char (n mod 10)" by auto
    then show ?thesis
    proof
      assume "c \<in> set (digits (n div 10))"
      with False 1(1) show ?thesis by simp
    next
      assume "c = digit_char (n mod 10)"
      then show ?thesis by (simp add: digit_char_code)
    qed
  qed
qed

lemma digits_no_minus: "digits n \<noteq> CHR ''-'' # s"
proof
  assume "digits n = CHR ''-'' # s"
  then have "CHR ''-'' \<in> set (digits n)" by simp
  from digits_range [OF this] show False by simp
qed

lemma digits_inj: "digits n = digits m \<Longrightarrow> n = m"
proof (induction n arbitrary: m rule: digits.induct)
  case (1 n)
  show ?case
  proof (cases "n < 10")
    case small: True
    show ?thesis
    proof (cases "m < 10")
      case True
      with small 1(2) have "digit_char n = digit_char m" by (simp add: digits_small)
      with small True show ?thesis by (intro digit_char_inj)
    next
      case False
      then have "digits m = digits (m div 10) @ [digit_char (m mod 10)]" by (simp add: digits_snoc)
      with small 1(2) digits_nonempty [of "m div 10"] show ?thesis
        by (simp add: digits_small)
    qed
  next
    case big: False
    then have n: "digits n = digits (n div 10) @ [digit_char (n mod 10)]" by (simp add: digits_snoc)
    show ?thesis
    proof (cases "m < 10")
      case True
      with n 1(2) digits_nonempty [of "n div 10"] show ?thesis
        by (simp add: digits_small)
    next
      case False
      then have "digits m = digits (m div 10) @ [digit_char (m mod 10)]" by (simp add: digits_snoc)
      with n 1(2) have d: "digits (n div 10) = digits (m div 10)"
        and r: "digit_char (n mod 10) = digit_char (m mod 10)" by simp_all
      from 1(1) [OF big d] have "n div 10 = m div 10" .
      moreover from r have "n mod 10 = m mod 10" by (rule digit_char_inj [rotated 2]) simp_all
      ultimately have "n div 10 * 10 + n mod 10 = m div 10 * 10 + m mod 10" by (simp only:)
      then show ?thesis by (simp only: div_mult_mod_eq)
    qed
  qed
qed

lemma fmt_d_inj:
  assumes "fmt_d i = fmt_d j"
  shows "i = j"
proof (cases "i < 0"; cases "j < 0")
  assume "i < 0" "j < 0"
  with assms have "digits (nat (- i)) = digits (nat (- j))" by (simp add: fmt_d_def)
  then have "nat (- i) = nat (- j)" by (rule digits_inj)
  with \<open>i < 0\<close> \<open>j < 0\<close> show ?thesis by simp
next
  assume "i < 0" "\<not> j < 0"
  with assms have "digits (nat j) = CHR ''-'' # digits (nat (- i))" by (simp add: fmt_d_def)
  with digits_no_minus show ?thesis by blast
next
  assume "\<not> i < 0" "j < 0"
  with assms have "digits (nat i) = CHR ''-'' # digits (nat (- j))" by (simp add: fmt_d_def)
  with digits_no_minus show ?thesis by blast
next
  assume "\<not> i < 0" "\<not> j < 0"
  with assms have "digits (nat i) = digits (nat j)" by (simp add: fmt_d_def)
  then have "nat i = nat j" by (rule digits_inj)
  with \<open>\<not> i < 0\<close> \<open>\<not> j < 0\<close> show ?thesis by simp
qed

lemma fmt_d_sint_eq [simp]: "fmt_d (sint v) = fmt_d (sint w) \<longleftrightarrow> v = (w :: 64 word)"
proof
  assume "fmt_d (sint v) = fmt_d (sint w)"
  then have "sint v = sint w" by (rule fmt_d_inj)
  then show "v = w" by (rule signed_word_eqI)
qed simp


lemma fmt_extra_string_eq [simp]: "fmt_extra_string s = fmt_extra_string t \<longleftrightarrow> s = t"
  by (simp add: fmt_extra_string_def)

subsection \<open>The fields under the hash\<close>

text \<open>
  C6, as stated: two blocks that differ only in their receivers lists never share a
  digest. The receivers are rendered with \<^verbatim>\<open>%v\<close>, the elements separated by a space, so
  the one receiver \<^verbatim>\<open>a b\<close> and the two receivers \<^verbatim>\<open>a\<close>, \<^verbatim>\<open>b\<close> give the same string
  and with it the same digest.
\<close>

theorem CalculateHash_same_digest_for_other_receivers:
  "Receivers (genesis_shell\<lparr>Receivers := [''a b'']\<rparr>)
     \<noteq> Receivers (genesis_shell\<lparr>Receivers := [''a'', ''b'']\<rparr>)
   \<and> CalculateHash (genesis_shell\<lparr>Receivers := [''a b'']\<rparr>)
     = CalculateHash (genesis_shell\<lparr>Receivers := [''a'', ''b'']\<rparr>)"
  by (simp add: CalculateHash_def hash_record_def serializeReceivers_def fmt_v_strings_def)

text \<open>
  C6, amended. \<open>CalculateHash\<close> is the SHA-256 digest, in hexadecimal, of a string made
  of index, timestamp, previous-hash, relationship-type, the three payload strings, the
  rendering of the receivers, difficulty, nonce and category, and of nothing else: two
  blocks that agree on these (for the receivers: on their rendering) get the same
  digest. Changing exactly one of the fields other than the receivers always changes
  the string that is hashed; changing the receivers changes it exactly when their
  rendering changes. (The digests of two different strings differ unless SHA-256
  collides.)
\<close>

theorem CalculateHash_fields:
  "CalculateHash b = sha256_hex (hash_record b)
   \<and> (Index b1 = Index b2 \<and> Timestamp b1 = Timestamp b2 \<and> PrevHash b1 = PrevHash b2
        \<and> RelationshipType b1 = RelationshipType b2 \<and> TextData b1 = TextData b2
        \<and> AudioData b1 = AudioData b2 \<and> VideoData b1 = VideoData b2
        \<and> serializeReceivers (Receivers b1) = serializeReceivers (Receivers b2)
        \<and> Difficulty b1 = Difficulty b2 \<and> Nonce b1 = Nonce b2 \<and> Category b1 = Category b2
        \<longrightarrow> CalculateHash b1 = CalculateHash b2)
   \<and> (hash_record (b\<lparr>Index := i\<rparr>) = hash_record b \<longleftrightarrow> i = Index b)
   \<and> (hash_record (b\<lparr>Timestamp := t\<rparr>) = hash_record b \<longleftrightarrow> t = Timestamp b)
   \<and> (hash_record (b\<lparr>PrevHash := p\<rparr>) = hash_record b \<longleftrightarrow> p = PrevHash b)
   \<and> (hash_record (b\<lparr>RelationshipType := rt\<rparr>) = hash_record b \<longleftrightarrow> rt = RelationshipType b)
   \<and> (hash_record (b\<lparr>TextData := tx\<rparr>) = hash_record b \<longleftrightarrow> tx = TextData b)
   \<and> (hash_record (b\<lparr>AudioData := au\<rparr>) = hash_record b \<longleftrightarrow> au = AudioData b)
   \<and> (hash_record (b\<lparr>VideoData := vi\<rparr>) = hash_record b \<longleftrightarrow> vi = VideoData b)
   \<and> (hash_record (b\<lparr>Difficulty := d\<rparr>) = hash_record b \<longleftrightarrow> d = Difficulty b)
   \<and> (hash_record (b\<lparr>Nonce := n\<rparr>) = hash_record b \<longleftrightarrow> n = Nonce b)
   \<and> (hash_record (b\<lparr>Category := c\<rparr>) = hash_record b \<longleftrightarrow> c = Category b)
   \<and> (hash_record (b\<lparr>Receivers := rs\<rparr>) = hash_record b
        \<longleftrightarrow> serializeReceivers rs = serializeReceivers (Receivers b))"
proof (intro conjI impI)
  show "CalculateHash b = sha256_hex (hash_record b)"
    by (simp add: CalculateHash_def)
next
  assume "Index b1 = Index b2 \<and> Timestamp b1 = Timestamp b2 \<and> PrevHash b1 = PrevHash b2
        \<and> RelationshipType b1 = RelationshipType b2 \<and> TextData b1 = TextData b2
        \<and> AudioData b1 = AudioData b2 \<and> VideoData b1 = VideoData b2
        \<and> serializeReceivers (Receivers b1) = serializeReceivers (Receivers b2)
        \<and> Difficulty b1 = Difficulty b2 \<and> Nonce b1 = Nonce b2 \<and> Category b1 = Category b2"
  then have "hash_record b1 = hash_record b2"
    by (simp add: hash_record_def)
  then show "CalculateHash b1 = CalculateHash b2"
    by (simp add: CalculateHash_def)
qed (simp_all add: hash_record_def)

text \<open>
  The stored hash and the sub-blocks are not hashed; the nonce, the category and the
  receivers (when the rendering differs) are.
\<close>

theorem CalculateHash_fields_witness:
  "CalculateHash (genesis_shell\<lparr>Hash := ''ff'', SubBlocks := [7]\<rparr>) = CalculateHash genesis_shell
   \<and> hash_record (genesis_shell\<lparr>Nonce := 1\<rparr>) \<noteq> hash_record genesis_shell
   \<and> hash_record (genesis_shell\<lparr>Category := ''text''\<rparr>) \<noteq> hash_record genesis_shell
   \<and> hash_record (genesis_shell\<lparr>Receivers := [''Bob'', ''Carol'']\<rparr>) \<noteq> hash_record genesis_shell"
proof -
  have same: "CalculateHash (genesis_shell\<lparr>Hash := ''ff'', SubBlocks := [7]\<rparr>) = CalculateHash genesis_shell"
    by (rule CalculateHash_fields [THEN conjunct2, THEN conjunct1, THEN mp]) simp
  have n: "(1 :: go_int) \<noteq> Nonce genesis_shell" and c: "''text'' \<noteq> Category genesis_shell"
    and r: "serializeReceivers [''Bob'', ''Carol''] \<noteq> serializeReceivers (Receivers genesis_shell)"
    by (simp_all add: genesis_shell_def serializeReceivers_def fmt_v_strings_def)
  from n c r same show ?thesis
    using CalculateHash_fields [where b = genesis_shell and n = 1 and c = "''text''"
                                  and rs = "[''Bob'', ''Carol'']"]
    by blast
qed

section \<open>Appending a sub-block\<close>

lemma record_sub:
  "hash_record (sub_block_shell 1700000064 mined_genesis ''New'' [] [] ''text'')
     = ''01700000064004747202ab473a03a09d50b45066d664b86b45941fd8ca30eb121d25044bf2done-to-oneNew[Bob]10%!(EXTRA string=text)''"
  by (simp add: sub_block_shell_def mined_genesis_def stamped_def genesis_shell_def record_eval)

lemma sha_sub:
  "sha256_hex ''01700000064004747202ab473a03a09d50b45066d664b86b45941fd8ca30eb121d25044bf2done-to-oneNew[Bob]10%!(EXTRA string=text)''
     = ''08b5a638190d1b9375ae67e90de926b1d02061bd631a634df1dac77594b3d804''"
  by (simp add: sha256_eval)

lemma hash_sub:
  "CalculateHash (sub_block_shell 1700000064 mined_genesis ''New'' [] [] ''text'')
     = ''08b5a638190d1b9375ae67e90de926b1d02061bd631a634df1dac77594b3d804''"
  by (simp only: CalculateHash_def record_sub sha_sub)

lemma mine_sub:
  "MineBlock (sub_block_shell 1700000064 mined_genesis ''New'' [] [] ''text'') 1
     = Some (Inr sample_sub_block)"
proof -
  have t: "target_of 1 = ''0''" by (simp add: target_of_def)
  have "HasPrefix (CalculateHash (sub_block_shell 1700000064 mined_genesis ''New'' [] [] ''text'')) ''0''"
    by (simp only: hash_sub) (simp add: HasPrefix_def)
  then have "mine_loop ''0'' (sub_block_shell 1700000064 mined_genesis ''New'' [] [] ''text'')
               = Some sample_sub_block"
    by (simp only: mine_loop_found hash_sub sample_sub_block_def)
  then show ?thesis
    by (simp add: MineBlock_def t word_sless_alt)
qed

lemma hash_mined_genesis: "CalculateHash mined_genesis = Hash mined_genesis"
proof -
  have "mined_genesis = (bumped (stamped 1700000027 1) 1)\<lparr>Hash := Hash mined_genesis\<rparr>"
    by (simp add: mined_genesis_def bumped_def stamped_def genesis_shell_def)
  then have "CalculateHash mined_genesis = CalculateHash (bumped (stamped 1700000027 1) 1)"
    by (metis CalculateHash_Hash_update)
  then show ?thesis
    by (simp only: hash_B1) (simp add: mined_genesis_def)
qed

lemma sample_sub_block_sealed: "sample_sub_block\<lparr>Hash := CalculateHash sample_sub_block\<rparr> = sample_sub_block"
proof -
  have "CalculateHash sample_sub_block
          = CalculateHash (sub_block_shell 1700000064 mined_genesis ''New'' [] [] ''text'')"
    by (simp only: sample_sub_block_def CalculateHash_Hash_update)
  then show ?thesis
    by (simp only: hash_sub) (simp add: sample_sub_block_def)
qed

lemma update_sample:
  "UpdateBlockWithSubBlockEx 1700000064 [mined_genesis] \<lparr>Blocks = [0]\<rparr> 0 ''New'' [] [] ''text''
     = Some (Inr (SubBlockAppended, [mined_genesis\<lparr>SubBlocks := [1]\<rparr>, sample_sub_block]))"
proof -
  have "SubBlocks mined_genesis = []"
    by (simp add: mined_genesis_def stamped_def genesis_shell_def)
  then show ?thesis
    by (simp add: UpdateBlockWithSubBlockEx_def mine_sub sample_sub_block_sealed)
qed

lemma UpdateBlockWithSubBlock_same: "UpdateBlockWithSubBlock = UpdateBlockWithSubBlockEx"
  by (intro ext) (simp only: UpdateBlockWithSubBlock_def UpdateBlockWithSubBlockEx_def)

lemma update_sample_earlier:
  "UpdateBlockWithSubBlock 1700000064 [mined_genesis] \<lparr>Blocks = [0]\<rparr> 0 ''New'' [] [] ''text''
     = Some (Inr (SubBlockAppended, [mined_genesis\<lparr>SubBlocks := [1]\<rparr>, sample_sub_block]))"
proof -
  have "SubBlocks mined_genesis = []"
    by (simp add: mined_genesis_def stamped_def genesis_shell_def)
  then show ?thesis
    by (simp add: UpdateBlockWithSubBlock_def mine_sub sample_sub_block_sealed)
qed

text \<open>
  C8, for each of the two methods, \<open>UpdateBlockWithSubBlockEx\<close> and
  \<open>UpdateBlockWithSubBlock\<close>. With a parent index outside the chain the call reports it
  and the store is as before. With an index inside the chain (and an allocated block at it) the call returns
  exactly when the search for the sub-block's nonce ends, that is when some number of
  increments gives a digest that starts with \<^verbatim>\<open>0\<close>. When it returns, one block has been
  allocated: the sub-block, with the parent's index, relationship-type and receivers,
  the caller's payloads and category, difficulty 1, the parent's hash as previous-hash
  and a self-consistent hash that starts with \<^verbatim>\<open>0\<close>. Its address has been appended to
  the parent's list of sub-blocks. Nothing else has changed: the parent's other fields
  (its index and hash among them) and every other block of the store are as before, so
  the parent is hash-valid afterwards exactly if it was before. The chain itself, the
  list of addresses, is not written.
\<close>

theorem UpdateBlockWithSubBlock_frame:
  assumes which: "update = UpdateBlockWithSubBlockEx \<or> update = UpdateBlockWithSubBlock"
  shows "(sint parentIndex < 0 \<or> int (length (Blocks bc)) \<le> sint parentIndex \<longrightarrow>
            update now h bc parentIndex newText newAudio newVideo category
              = Some (Inr (InvalidParentIndex, h)))
       \<and> (0 \<le> sint parentIndex \<and> sint parentIndex < int (length (Blocks bc))
          \<and> p = Blocks bc ! nat (sint parentIndex) \<and> p < length h \<longrightarrow>
            ((\<exists>r. update now h bc parentIndex newText newAudio newVideo category
                    = Some r)
               \<longleftrightarrow> (\<exists>k. HasPrefix (CalculateHash
                            (bumped (sub_block_shell now (h ! p) newText newAudio newVideo category) k))
                          ''0''))
          \<and> (\<forall>r. update now h bc parentIndex newText newAudio newVideo category
                    = Some r \<longrightarrow>
                (\<exists>h' sub. r = Inr (SubBlockAppended, h')
                   \<and> h' = (h @ [sub])[p := (h ! p)\<lparr>SubBlocks := SubBlocks (h ! p) @ [length h]\<rparr>]
                   \<and> length h' = Suc (length h)
                   \<and> h' ! length h = sub
                   \<and> h' ! p = (h ! p)\<lparr>SubBlocks := SubBlocks (h ! p) @ [length h]\<rparr>
                   \<and> (\<forall>a < length h. a \<noteq> p \<longrightarrow> h' ! a = h ! a)
                   \<and> Index (h' ! p) = Index (h ! p) \<and> Hash (h' ! p) = Hash (h ! p)
                   \<and> ((Hash (h' ! p) = CalculateHash (h' ! p)) = (Hash (h ! p) = CalculateHash (h ! p)))
                   \<and> RelationshipType sub = RelationshipType (h ! p)
                   \<and> Receivers sub = Receivers (h ! p)
                   \<and> Index sub = Index (h ! p)
                   \<and> Difficulty sub = 1
                   \<and> PrevHash sub = Hash (h ! p)
                   \<and> Category sub = category
                   \<and> TextData sub = newText \<and> AudioData sub = newAudio \<and> VideoData sub = newVideo
                   \<and> Timestamp sub = now \<and> SubBlocks sub = [] \<and> Transactions sub = []
                   \<and> Hash sub = CalculateHash sub \<and> HasPrefix (Hash sub) ''0'')))"
proof (intro conjI impI)
  assume "sint parentIndex < 0 \<or> int (length (Blocks bc)) \<le> sint parentIndex"
  then show "update now h bc parentIndex newText newAudio newVideo category
              = Some (Inr (InvalidParentIndex, h))"
    using which by (auto simp add: UpdateBlockWithSubBlockEx_def UpdateBlockWithSubBlock_def)
next
  assume hyp: "0 \<le> sint parentIndex \<and> sint parentIndex < int (length (Blocks bc))
          \<and> p = Blocks bc ! nat (sint parentIndex) \<and> p < length h"
  then have range: "0 \<le> sint parentIndex \<and> sint parentIndex < int (length (Blocks bc))"
    and ptr: "p = Blocks bc ! nat (sint parentIndex)" "p < length h"
    by simp_all
  let ?shell = "sub_block_shell now (h ! p) newText newAudio newVideo category"
  from which have ex: "update = UpdateBlockWithSubBlockEx"
    by (auto simp add: UpdateBlockWithSubBlock_same)
  have t: "target_of 1 = ''0''" by (simp add: target_of_def)
  have unfold: "update now h bc parentIndex newText newAudio newVideo category =
     (case MineBlock ?shell 1 of
        None \<Rightarrow> None
      | Some (Inl e) \<Rightarrow> Some (Inl e)
      | Some (Inr mined) \<Rightarrow>
          Some (Inr (SubBlockAppended,
            (h @ [mined\<lparr>Hash := CalculateHash mined\<rparr>])
              [p := (h ! p)\<lparr>SubBlocks := SubBlocks (h ! p) @ [length h]\<rparr>])))"
    using range ptr(2) unfolding ex ptr(1) UpdateBlockWithSubBlockEx_def by simp
  have mine: "MineBlock ?shell 1 = map_option Inr (mine_loop ''0'' ?shell)"
    by (simp add: MineBlock_def t word_sless_alt)
  show "(\<exists>r. update now h bc parentIndex newText newAudio newVideo category = Some r)
          \<longleftrightarrow> (\<exists>k. HasPrefix (CalculateHash (bumped ?shell k)) ''0'')"
  proof
    assume "\<exists>r. update now h bc parentIndex newText newAudio newVideo category = Some r"
    then obtain mined where "mine_loop ''0'' ?shell = Some mined"
      unfolding unfold mine by (cases "mine_loop ''0'' ?shell") auto
    from mine_loop_sound [OF this] show "\<exists>k. HasPrefix (CalculateHash (bumped ?shell k)) ''0''"
      by blast
  next
    assume ex: "\<exists>k. HasPrefix (CalculateHash (bumped ?shell k)) ''0''"
    define Q where "Q = (\<lambda>k. HasPrefix (CalculateHash (bumped ?shell k)) ''0'')"
    from ex have "\<exists>k. Q k" by (simp add: Q_def)
    then have "\<forall>j<(LEAST k. Q k). \<not> Q j" and "Q (LEAST k. Q k)"
      by (auto intro: LeastI_ex dest: not_less_Least)
    then have "mine_loop ''0'' ?shell
                 = Some ((bumped ?shell (LEAST k. Q k))
                           \<lparr>Hash := CalculateHash (bumped ?shell (LEAST k. Q k))\<rparr>)"
      unfolding Q_def by (rule mine_loop_first_solution)
    then show "\<exists>r. update now h bc parentIndex newText newAudio newVideo category = Some r"
      unfolding unfold mine by simp
  qed
  show "\<forall>r. update now h bc parentIndex newText newAudio newVideo category
                    = Some r \<longrightarrow>
                (\<exists>h' sub. r = Inr (SubBlockAppended, h')
                   \<and> h' = (h @ [sub])[p := (h ! p)\<lparr>SubBlocks := SubBlocks (h ! p) @ [length h]\<rparr>]
                   \<and> length h' = Suc (length h)
                   \<and> h' ! length h = sub
                   \<and> h' ! p = (h ! p)\<lparr>SubBlocks := SubBlocks (h ! p) @ [length h]\<rparr>
                   \<and> (\<forall>a < length h. a \<noteq> p \<longrightarrow> h' ! a = h ! a)
                   \<and> Index (h' ! p) = Index (h ! p) \<and> Hash (h' ! p) = Hash (h ! p)
                   \<and> ((Hash (h' ! p) = CalculateHash (h' ! p)) = (Hash (h ! p) = CalculateHash (h ! p)))
                   \<and> RelationshipType sub = RelationshipType (h ! p)
                   \<and> Receivers sub = Receivers (h ! p)
                   \<and> Index sub = Index (h ! p)
                   \<and> Difficulty sub = 1
                   \<and> PrevHash sub = Hash (h ! p)
                   \<and> Category sub = category
                   \<and> TextData sub = newText \<and> AudioData sub = newAudio \<and> VideoData sub = newVideo
                   \<and> Timestamp sub = now \<and> SubBlocks sub = [] \<and> Transactions sub = []
                   \<and> Hash sub = CalculateHash sub \<and> HasPrefix (Hash sub) ''0'')"
  proof (intro allI impI)
    fix r
    assume ret: "update now h bc parentIndex newText newAudio newVideo category = Some r"
    then obtain mined where ml: "mine_loop ''0'' ?shell = Some mined"
      and r: "r = Inr (SubBlockAppended,
            (h @ [mined\<lparr>Hash := CalculateHash mined\<rparr>])
              [p := (h ! p)\<lparr>SubBlocks := SubBlocks (h ! p) @ [length h]\<rparr>])"
      unfolding unfold mine by (cases "mine_loop ''0'' ?shell") auto
    from mine_loop_sound [OF ml] obtain k where
      pre: "HasPrefix (CalculateHash (bumped ?shell k)) ''0''"
      and m: "mined = (bumped ?shell k)\<lparr>Hash := CalculateHash (bumped ?shell k)\<rparr>"
      by blast
    let ?sub = "mined\<lparr>Hash := CalculateHash mined\<rparr>"
    let ?h' = "(h @ [?sub])[p := (h ! p)\<lparr>SubBlocks := SubBlocks (h ! p) @ [length h]\<rparr>]"
    have p': "p < length (h @ [?sub])" using ptr(2) by simp
    have sub_hash: "Hash ?sub = CalculateHash (bumped ?shell k)" by (simp add: m)
    have fields: "RelationshipType ?sub = RelationshipType (h ! p)" "Receivers ?sub = Receivers (h ! p)"
      "Index ?sub = Index (h ! p)" "Difficulty ?sub = 1" "PrevHash ?sub = Hash (h ! p)"
      "Category ?sub = category" "TextData ?sub = newText" "AudioData ?sub = newAudio"
      "VideoData ?sub = newVideo" "Timestamp ?sub = now" "SubBlocks ?sub = []" "Transactions ?sub = []"
      by (simp_all add: m bumped_def sub_block_shell_def)
    have self: "Hash ?sub = CalculateHash ?sub" by simp
    have zero: "HasPrefix (Hash ?sub) ''0''" using pre by (simp only: sub_hash)
    have at_new: "?h' ! length h = ?sub" using ptr(2) by (simp add: nth_list_update nth_append)
    have at_p: "?h' ! p = (h ! p)\<lparr>SubBlocks := SubBlocks (h ! p) @ [length h]\<rparr>"
      using p' by simp
    have others: "\<forall>a < length h. a \<noteq> p \<longrightarrow> ?h' ! a = h ! a"
      by (simp add: nth_list_update nth_append)
    have valid: "(Hash (?h' ! p) = CalculateHash (?h' ! p)) = (Hash (h ! p) = CalculateHash (h ! p))"
      by (simp only: at_p) (simp add: CalculateHash_def hash_record_def)
    have keep: "Index (?h' ! p) = Index (h ! p)" "Hash (?h' ! p) = Hash (h ! p)"
      by (simp_all only: at_p) simp_all
    show "\<exists>h' sub. r = Inr (SubBlockAppended, h')
                   \<and> h' = (h @ [sub])[p := (h ! p)\<lparr>SubBlocks := SubBlocks (h ! p) @ [length h]\<rparr>]
                   \<and> length h' = Suc (length h)
                   \<and> h' ! length h = sub
                   \<and> h' ! p = (h ! p)\<lparr>SubBlocks := SubBlocks (h ! p) @ [length h]\<rparr>
                   \<and> (\<forall>a < length h. a \<noteq> p \<longrightarrow> h' ! a = h ! a)
                   \<and> Index (h' ! p) = Index (h ! p) \<and> Hash (h' ! p) = Hash (h ! p)
                   \<and> ((Hash (h' ! p) = CalculateHash (h' ! p)) = (Hash (h ! p) = CalculateHash (h ! p)))
                   \<and> RelationshipType sub = RelationshipType (h ! p)
                   \<and> Receivers sub = Receivers (h ! p)
                   \<and> Index sub = Index (h ! p)
                   \<and> Difficulty sub = 1
                   \<and> PrevHash sub = Hash (h ! p)
                   \<and> Category sub = category
                   \<and> TextData sub = newText \<and> AudioData sub = newAudio \<and> VideoData sub = newVideo
                   \<and> Timestamp sub = now \<and> SubBlocks sub = [] \<and> Transactions sub = []
                   \<and> Hash sub = CalculateHash sub \<and> HasPrefix (Hash sub) ''0''"
      apply (rule exI [of _ ?h'])
      apply (rule exI [of _ ?sub])
      using r at_new at_p others valid keep fields self zero
      apply (intro conjI)
      apply (simp_all only:)
      apply simp_all
      done
  qed
qed

text \<open>
  The mined sample block alone in the store and in the chain: with either method, at
  index 0 it receives the sample sub-block and stays hash-valid; index 1 is refused and
  the store is untouched.
\<close>

theorem UpdateBlockWithSubBlock_frame_witness:
  "UpdateBlockWithSubBlockEx 1700000064 [mined_genesis] \<lparr>Blocks = [0]\<rparr> 0 ''New'' [] [] ''text''
     = Some (Inr (SubBlockAppended, [mined_genesis\<lparr>SubBlocks := [1]\<rparr>, sample_sub_block]))
   \<and> UpdateBlockWithSubBlock 1700000064 [mined_genesis] \<lparr>Blocks = [0]\<rparr> 0 ''New'' [] [] ''text''
     = Some (Inr (SubBlockAppended, [mined_genesis\<lparr>SubBlocks := [1]\<rparr>, sample_sub_block]))
   \<and> Hash (mined_genesis\<lparr>SubBlocks := [1]\<rparr>) = CalculateHash (mined_genesis\<lparr>SubBlocks := [1]\<rparr>)
   \<and> Hash sample_sub_block = CalculateHash sample_sub_block
   \<and> PrevHash sample_sub_block = Hash mined_genesis
   \<and> UpdateBlockWithSubBlockEx 1700000064 [mined_genesis] \<lparr>Blocks = [0]\<rparr> 1 ''New'' [] [] ''text''
     = Some (Inr (InvalidParentIndex, [mined_genesis]))
   \<and> UpdateBlockWithSubBlock 1700000064 [mined_genesis] \<lparr>Blocks = [0]\<rparr> 1 ''New'' [] [] ''text''
     = Some (Inr (InvalidParentIndex, [mined_genesis]))"
proof -
  let ?h = "[mined_genesis]" and ?bc = "\<lparr>Blocks = [0]\<rparr>"
  have first: "UpdateBlockWithSubBlockEx = UpdateBlockWithSubBlockEx
                 \<or> UpdateBlockWithSubBlockEx = UpdateBlockWithSubBlock"
    by simp
  have second: "UpdateBlockWithSubBlock = UpdateBlockWithSubBlockEx
                  \<or> UpdateBlockWithSubBlock = UpdateBlockWithSubBlock"
    by simp
  note frame = UpdateBlockWithSubBlock_frame
                 [OF second, of 0 ?bc 1700000064 ?h "''New''" "[]" "[]" "''text''" 0]
  have inrange: "0 \<le> sint (0 :: go_int) \<and> sint (0 :: go_int) < int (length (Blocks ?bc))
                   \<and> (0::nat) = Blocks ?bc ! nat (sint (0 :: go_int)) \<and> (0::nat) < length ?h"
    by simp
  from frame [THEN conjunct2, THEN mp, OF inrange, THEN conjunct2, THEN spec, THEN mp,
              OF update_sample_earlier]
  obtain h' sub where r: "Inr (SubBlockAppended, [mined_genesis\<lparr>SubBlocks := [1]\<rparr>, sample_sub_block])
                           = (Inr (SubBlockAppended, h') :: error + update_status \<times> heap)"
    and new: "h' ! length ?h = sub"
    and valid: "(Hash (h' ! 0) = CalculateHash (h' ! 0)) = (Hash (?h ! 0) = CalculateHash (?h ! 0))"
    and self: "Hash sub = CalculateHash sub"
    and prev: "PrevHash sub = Hash (?h ! 0)"
    by blast
  from r have h': "h' = [mined_genesis\<lparr>SubBlocks := [1]\<rparr>, sample_sub_block]" by simp
  from new h' have sub: "sub = sample_sub_block" by simp
  have a: "Hash (mined_genesis\<lparr>SubBlocks := [1]\<rparr>) = CalculateHash (mined_genesis\<lparr>SubBlocks := [1]\<rparr>)"
    using valid hash_mined_genesis unfolding h' by simp
  have b: "Hash sample_sub_block = CalculateHash sample_sub_block"
    using self unfolding sub .
  have c: "PrevHash sample_sub_block = Hash mined_genesis"
    using prev unfolding sub by simp
  have outside: "sint (1 :: go_int) < 0 \<or> int (length (Blocks ?bc)) \<le> sint (1 :: go_int)"
    by simp
  have d: "UpdateBlockWithSubBlockEx 1700000064 [mined_genesis] \<lparr>Blocks = [0]\<rparr> 1 ''New'' [] [] ''text''
     = Some (Inr (InvalidParentIndex, [mined_genesis]))"
    by (rule UpdateBlockWithSubBlock_frame [OF first, THEN conjunct1, THEN mp, OF outside])
  have e: "UpdateBlockWithSubBlock 1700000064 [mined_genesis] \<lparr>Blocks = [0]\<rparr> 1 ''New'' [] [] ''text''
     = Some (Inr (InvalidParentIndex, [mined_genesis]))"
    by (rule UpdateBlockWithSubBlock_frame [OF second, THEN conjunct1, THEN mp, OF outside])
  from update_sample update_sample_earlier a b c d e show ?thesis by (intro conjI)
qed

section \<open>The quorum\<close>

subsection \<open>Evaluating float64 arithmetic\<close>

lemma bit_length_0 [simp]: "bit_length 0 = 0"
  by (subst bit_length.simps) simp

lemma bit_length_Suc_0 [simp]: "bit_length (Suc 0) = 1"
  by (subst bit_length.simps) simp

lemma bit_length_numeral [simp]:
  "bit_length (numeral k) = bit_length (numeral k div 2) + 1"
  by (subst bit_length.simps) simp

lemmas f64_eval =
  f64_round_def f64_drop_def f64_pack_def round_shift_def trunc_dyadic_def f64_of_int_def
  f64_sub_def

lemma scaled_stakes:
  "f64_to_int (f64_mul (F64 50 0) (F64 100 0)) = 5000"
  "f64_to_int (f64_mul (F64 30 0) (F64 100 0)) = 3000"
  "f64_to_int (f64_mul (F64 20 0) (F64 100 0)) = 2000"
  by (simp_all add: f64_eval)

lemma product_100: "f64_mul (f64_of_int 100) f64_0_67 = F64 4714705859903488 (- 46)"
  by (simp add: f64_eval f64_0_67_def)

lemma threshold_100: "f64_to_int (f64_mul (f64_of_int 100) f64_0_67) = 67"
  by (simp only: product_100) (simp add: f64_eval)

lemma f64_0_67_nearest: "\<bar>f64_val f64_0_67 - 67 / 100\<bar> \<le> 1 / 2 ^ 54"
  by (simp add: f64_0_67_def power_int_minus)

lemma FinalizeBlock_first_match:
  "FinalizeBlock hcm totalStake =
     map_option BlockOf (find (\<lambda>c. vote_threshold hcm totalStake \<le>s ValidVotes c) (CandidateBlocks hcm))"
proof -
  have "first_reaching t cs = map_option BlockOf (find (\<lambda>c. t \<le>s ValidVotes c) cs)" for t cs
    by (induction cs) simp_all
  then show ?thesis by (simp add: FinalizeBlock_def)
qed

lemma quorum_threshold [simp]: "vote_threshold (CastVote (CastVote quorum_manager 0 v True) 0 w True) 100 = 67"
  "vote_threshold quorum_manager 100 = 67"
  by (simp_all add: vote_threshold_def CastVote_def quorum_manager_def ProposeBlock_def
        NewHybridConsensusManager_def threshold_100 split: option.splits)

subsection \<open>The scenario of three stakeholders\<close>

text \<open>
  C1, on the code. Stakes of 50, 30 and 20, the threshold fraction 0.67, one candidate.
  For a total stake of 100 the threshold is \<open>int(100 * 0.67) = 67\<close>. A vote adds
  \<open>int(stake * 100)\<close> to the tally, so the votes of B and C alone give 5000, which
  reaches 67: \<open>FinalizeBlock\<close> returns the candidate although only half of the stake
  approved. The votes of A and B give 8000 and the candidate is returned; with no vote
  cast nothing is returned.
\<close>

theorem FinalizeBlock_quorum_scenario:
  "vote_threshold quorum_manager 100 = 67
   \<and> map ValidVotes (CandidateBlocks (CastVote (CastVote quorum_manager 0 ''B'' True) 0 ''C'' True))
       = [5000]
   \<and> FinalizeBlock (CastVote (CastVote quorum_manager 0 ''B'' True) 0 ''C'' True) 100
       = Some mined_genesis
   \<and> map ValidVotes (CandidateBlocks (CastVote (CastVote quorum_manager 0 ''A'' True) 0 ''B'' True))
       = [8000]
   \<and> FinalizeBlock (CastVote (CastVote quorum_manager 0 ''A'' True) 0 ''B'' True) 100
       = Some mined_genesis
   \<and> FinalizeBlock quorum_manager 100 = None"
proof -
  have votes: "CandidateBlocks (CastVote (CastVote quorum_manager 0 ''B'' True) 0 ''C'' True)
                 = [\<lparr>BlockOf = mined_genesis, Work = Nonce mined_genesis, ValidVotes = 5000\<rparr>]"
    "CandidateBlocks (CastVote (CastVote quorum_manager 0 ''A'' True) 0 ''B'' True)
                 = [\<lparr>BlockOf = mined_genesis, Work = Nonce mined_genesis, ValidVotes = 8000\<rparr>]"
    "CandidateBlocks quorum_manager
                 = [\<lparr>BlockOf = mined_genesis, Work = Nonce mined_genesis, ValidVotes = 0\<rparr>]"
    by (simp_all add: CastVote_def quorum_manager_def ProposeBlock_def
          NewHybridConsensusManager_def f64_eval)
  have cmp: "(67 :: go_int) \<le>s 5000" "(67 :: go_int) \<le>s 8000" "\<not> (67 :: go_int) \<le>s 0"
    by (simp_all add: word_sle_eq)
  show ?thesis
    by (simp add: FinalizeBlock_def votes cmp)
qed

section \<open>The ledger\<close>

lemma balance_upd: "balance (l(k \<mapsto> v)) j = (if j = k then v else balance l j)"
  by (simp add: balance_def)

lemma total_upd:
  assumes "finite (dom l)"
  shows "ledger_total (l(k \<mapsto> v)) = ledger_total l - f64_val (balance l k) + f64_val v"
proof (cases "k \<in> dom l")
  case True
  then have d: "dom (l(k \<mapsto> v)) = dom l" by auto
  have "ledger_total (l(k \<mapsto> v)) = (\<Sum>j \<in> dom l. f64_val (balance (l(k \<mapsto> v)) j))"
    by (simp only: ledger_total_def d)
  also have "\<dots> = f64_val (balance (l(k \<mapsto> v)) k)
                    + (\<Sum>j \<in> dom l - {k}. f64_val (balance (l(k \<mapsto> v)) j))"
    using assms True by (rule sum.remove)
  also have "(\<Sum>j \<in> dom l - {k}. f64_val (balance (l(k \<mapsto> v)) j))
               = (\<Sum>j \<in> dom l - {k}. f64_val (balance l j))"
    by (rule sum.cong) (simp_all add: balance_upd)
  also have "f64_val (balance (l(k \<mapsto> v)) k) = f64_val v"
    by (simp add: balance_upd)
  finally have new: "ledger_total (l(k \<mapsto> v)) = f64_val v + (\<Sum>j \<in> dom l - {k}. f64_val (balance l j))" .
  have "ledger_total l = f64_val (balance l k) + (\<Sum>j \<in> dom l - {k}. f64_val (balance l j))"
    unfolding ledger_total_def using assms True by (rule sum.remove)
  with new show ?thesis by simp
next
  case False
  then have zero: "f64_val (balance l k) = 0"
    by (simp add: balance_def dom_def)
  have d: "dom (l(k \<mapsto> v)) = insert k (dom l)" by simp
  have "ledger_total (l(k \<mapsto> v)) = (\<Sum>j \<in> insert k (dom l). f64_val (balance (l(k \<mapsto> v)) j))"
    by (simp only: ledger_total_def d)
  also have "\<dots> = f64_val (balance (l(k \<mapsto> v)) k)
                    + (\<Sum>j \<in> dom l. f64_val (balance (l(k \<mapsto> v)) j))"
    using assms False by (rule sum.insert)
  also have "(\<Sum>j \<in> dom l. f64_val (balance (l(k \<mapsto> v)) j)) = (\<Sum>j \<in> dom l. f64_val (balance l j))"
    using False by (intro sum.cong) (auto simp add: balance_upd)
  also have "f64_val (balance (l(k \<mapsto> v)) k) = f64_val v"
    by (simp add: balance_upd)
  finally have "ledger_total (l(k \<mapsto> v)) = f64_val v + ledger_total l"
    by (simp only: ledger_total_def)
  with zero show ?thesis by simp
qed

lemma ProcessTransaction_rejected:
  "f64_lt (balance l (Sender tx)) (Amount tx) \<Longrightarrow> ProcessTransaction l tx = (Some InsufficientFunds, l)"
  by (simp add: ProcessTransaction_def)

lemma ProcessTransaction_error_unchanged:
  "fst (ProcessTransaction l tx) \<noteq> None \<Longrightarrow> snd (ProcessTransaction l tx) = l"
  by (simp add: ProcessTransaction_def split: if_splits)

lemma finite_dom_apply_op: "finite (dom l) \<Longrightarrow> finite (dom (apply_op l x))"
  by (cases x) (simp_all add: ProcessTransaction_def ProcessCoinbaseTransaction_def)

lemma transfer_total:
  assumes fin: "finite (dom l)"
    and ok: "fst (ProcessTransaction l tx) = None"
    and debit: "exact_sub (balance l (Sender tx)) (Amount tx)"
    and credit: "exact_add (balance (l(Sender tx \<mapsto> f64_sub (balance l (Sender tx)) (Amount tx)))
                                    (Recipient tx)) (Amount tx)"
  shows "ledger_total (snd (ProcessTransaction l tx)) = ledger_total l"
proof -
  let ?l1 = "l(Sender tx \<mapsto> f64_sub (balance l (Sender tx)) (Amount tx))"
  let ?l2 = "?l1(Recipient tx \<mapsto> f64_add (balance ?l1 (Recipient tx)) (Amount tx))"
  from ok have res: "snd (ProcessTransaction l tx) = ?l2"
    by (simp add: ProcessTransaction_def split: if_splits)
  have fin1: "finite (dom ?l1)" using fin by simp
  have "ledger_total ?l1 = ledger_total l - f64_val (balance l (Sender tx))
                      + f64_val (f64_sub (balance l (Sender tx)) (Amount tx))"
    using fin by (rule total_upd)
  also have "\<dots> = ledger_total l - f64_val (Amount tx)"
    using debit by (simp add: exact_sub_def)
  finally have one: "ledger_total ?l1 = ledger_total l - f64_val (Amount tx)" .
  have "ledger_total ?l2 = ledger_total ?l1 - f64_val (balance ?l1 (Recipient tx))
                      + f64_val (f64_add (balance ?l1 (Recipient tx)) (Amount tx))"
    using fin1 by (rule total_upd)
  also have "\<dots> = ledger_total ?l1 + f64_val (Amount tx)"
    using credit by (simp add: exact_add_def)
  finally show ?thesis
    using one res by simp
qed

lemma coinbase_total:
  assumes fin: "finite (dom l)" and credit: "exact_add (balance l recipient) reward"
  shows "ledger_total (ProcessCoinbaseTransaction l recipient reward) = ledger_total l + f64_val reward"
proof -
  have "ledger_total (l(recipient \<mapsto> f64_add (balance l recipient) reward))
          = ledger_total l - f64_val (balance l recipient) + f64_val (f64_add (balance l recipient) reward)"
    using fin by (rule total_upd)
  with credit show ?thesis
    by (simp add: ProcessCoinbaseTransaction_def exact_add_def)
qed

lemma exact_run_total:
  "finite (dom l) \<Longrightarrow> exact_run l ops \<Longrightarrow> ledger_total (foldl apply_op l ops) = ledger_total l + rewards ops"
proof (induction ops arbitrary: l)
  case Nil
  then show ?case by simp
next
  case (Cons x ops)
  have fin': "finite (dom (apply_op l x))"
    using Cons.prems(1) by (rule finite_dom_apply_op)
  show ?case
  proof (cases x)
    case (Transfer tx)
    with Cons.prems(2) have run: "exact_run (apply_op l (Transfer tx)) ops"
      and step: "ledger_total (apply_op l (Transfer tx)) = ledger_total l"
      using transfer_total [OF Cons.prems(1), of tx] by simp_all
    from Cons.IH [OF _ run] fin' Transfer step show ?thesis by simp
  next
    case (Coinbase recipient reward)
    with Cons.prems(2) have run: "exact_run (apply_op l (Coinbase recipient reward)) ops"
      and step: "ledger_total (apply_op l (Coinbase recipient reward)) = ledger_total l + f64_val reward"
      using coinbase_total [OF Cons.prems(1), of recipient reward] by simp_all
    from Cons.IH [OF _ run] fin' Coinbase step show ?thesis by simp
  qed
qed

lemma ledger_total_large: "ledger_total ledger_large = 9007199254740993"
  by (simp add: ledger_total_def ledger_large_def balance_def)

lemma ledger_total_main: "ledger_total ledger_main = 175"
  by (simp add: ledger_total_def ledger_main_def balance_def)

lemma finite_samples: "finite (dom ledger_large)" "finite (dom ledger_main)"
  by (simp_all add: ledger_large_def ledger_main_def)

lemma main_ops_exact: "exact_run ledger_main main_ops"
  by (simp add: main_ops_def ledger_main_def pay_def NewTransaction_def ProcessTransaction_def
        ProcessCoinbaseTransaction_def balance_def exact_add_def exact_sub_def f64_eval
        power_int_minus)

text \<open>
  C9, as stated: an accepted transfer never changes the total. With balances of 1 and
  \<open>2^53\<close>, moving the 1 leaves 0 and \<open>2^53 + 1\<close>, which is not a float64 and is rounded
  to \<open>2^53\<close>: the total drops by 1.
\<close>

theorem ledger_total_lost_to_rounding:
  "ProcessTransaction ledger_large (pay ''Alice'' ''Bob'' (F64 1 0))
     = (None, [''Alice'' \<mapsto> F64 0 0, ''Bob'' \<mapsto> F64 4503599627370496 1])
   \<and> ledger_total ledger_large = 9007199254740993
   \<and> ledger_total (snd (ProcessTransaction ledger_large (pay ''Alice'' ''Bob'' (F64 1 0))))
       = 9007199254740992"
proof -
  have run: "ProcessTransaction ledger_large (pay ''Alice'' ''Bob'' (F64 1 0))
     = (None, [''Alice'' \<mapsto> F64 0 0, ''Bob'' \<mapsto> F64 4503599627370496 1])"
    by (simp add: ProcessTransaction_def ledger_large_def pay_def NewTransaction_def balance_def
          f64_eval)
  have "ledger_total [''Alice'' \<mapsto> F64 0 0, ''Bob'' \<mapsto> F64 4503599627370496 1] = 9007199254740992"
    by (simp add: ledger_total_def balance_def)
  with run ledger_total_large show ?thesis by simp
qed

text \<open>
  C9, amended. Over a run of accepted transfers and coinbase credits in which no
  balance update is rounded (every float64 difference and sum is the exact one), the
  total of the balances at the end is the total at the start plus the sum of the
  coinbase rewards. A transfer whose sender has less than the amount is rejected and
  leaves every balance as it was.
\<close>

theorem ledger_total_conserved_when_exact:
  "(finite (dom l) \<and> exact_run l ops \<longrightarrow> ledger_total (apply_ops l ops) = ledger_total l + rewards ops)
   \<and> (f64_lt (balance l (Sender tx)) (Amount tx) \<longrightarrow>
        ProcessTransaction l tx = (Some InsufficientFunds, l))
   \<and> (fst (ProcessTransaction l tx) \<noteq> None \<longrightarrow> snd (ProcessTransaction l tx) = l)"
  by (simp add: apply_ops_def exact_run_total ProcessTransaction_rejected
        ProcessTransaction_error_unchanged)

theorem ledger_total_conserved_when_exact_witness:
  "exact_run ledger_main main_ops
   \<and> ledger_total ledger_main = 175
   \<and> rewards main_ops = 25 / 2
   \<and> ledger_total (apply_ops ledger_main main_ops) = 175 + 25 / 2
   \<and> ProcessTransaction ledger_main (pay ''Charlie'' ''Alice'' (F64 1000 0))
       = (Some InsufficientFunds, ledger_main)"
proof -
  have r: "rewards main_ops = 25 / 2"
    by (simp add: main_ops_def power_int_minus)
  have poor: "f64_lt (balance ledger_main (Sender (pay ''Charlie'' ''Alice'' (F64 1000 0))))
                     (Amount (pay ''Charlie'' ''Alice'' (F64 1000 0)))"
    by (simp add: ledger_main_def pay_def NewTransaction_def balance_def)
  from ledger_total_conserved_when_exact
         [of ledger_main main_ops "pay ''Charlie'' ''Alice'' (F64 1000 0)"]
       finite_samples(2) main_ops_exact poor
  have "ledger_total (apply_ops ledger_main main_ops) = ledger_total ledger_main + rewards main_ops"
    and "ProcessTransaction ledger_main (pay ''Charlie'' ''Alice'' (F64 1000 0))
           = (Some InsufficientFunds, ledger_main)"
    by blast+
  with main_ops_exact ledger_total_main r show ?thesis by simp
qed

end
